theory Spec2Isabelle
  imports Complex_Main "HOL-Library.Multiset"
begin

section \<open>Data model (types.ts)\<close>

text \<open>
  JavaScript numbers that hold coordinates, sizes and scales are modelled as reals. The
  zoom operations round every arithmetic result to binary64 (\<open>round64\<close> below);
  \<open>fitToContent\<close> and the marker sizes are computed exactly. Infinities are outside the
  model. The row number of a point is a type parameter: an integer where the code's guards
  have checked it (\<open>PointData\<close>), a JavaScript number that may be NaN where \<open>addPoint\<close>
  is studied on its own (\<open>NumberPoint\<close>). Field names follow the source; \<open>id\<close>,
  \<open>x\<close>, \<open>y\<close> and \<open>size\<close> carry a suffix because the plain names are taken.
\<close>

datatype Mode = draw | pan

record PlateData =
  plate :: string
  signals :: "(string \<times> real) list"

record 'r PointDataOf =
  id_p :: string
  x_p :: real
  y_p :: real
  size_p :: real
  rowNum :: 'r

type_synonym PointData = "int PointDataOf"

record AppState =
  mode :: Mode
  scale :: real
  offsetX :: real
  offsetY :: real
  circleSize :: real
  selectedPointId :: "string option"
  isDragging :: bool
  dragStartX :: real
  dragStartY :: real

section \<open>The store (store.ts)\<close>

text \<open>
  The \<open>Store\<close> class as a record that every operation takes and returns. Besides the
  class's own fields it carries the two effects the operations have on the outside:
  \<open>localPoints\<close> is the \<open>localStorage\<close> entry under \<open>STORAGE_KEY\<close> (\<open>None\<close> when
  the entry is absent, unreadable or not a JSON array), \<open>storageWritable\<close> says whether
  \<open>localStorage.setItem\<close> succeeds (when it throws, \<open>saveToLocal\<close> catches and the
  entry stays as it was), and \<open>notified\<close> counts the calls of \<open>notify\<close>.
\<close>

record 'r StoreOf =
  state :: AppState
  points :: "'r PointDataOf list"
  excelData :: "PlateData list"
  localPoints :: "'r PointDataOf list option"
  storageWritable :: bool
  notified :: nat

type_synonym Store = "int StoreOf"

definition initialState :: AppState where
  "initialState = \<lparr> mode = draw, scale = 1, offsetX = 0, offsetY = 0, circleSize = 24,
     selectedPointId = None, isDragging = False, dragStartX = 0, dragStartY = 0 \<rparr>"

text \<open>A freshly constructed store; what \<open>localStorage\<close> holds is the caller's to say.\<close>

definition newStore :: "'r PointDataOf list option \<Rightarrow> bool \<Rightarrow> 'r StoreOf" where
  "newStore saved writable = \<lparr> state = initialState, points = [], excelData = [],
     localPoints = saved, storageWritable = writable, notified = 0 \<rparr>"

definition notify :: "'r StoreOf \<Rightarrow> 'r StoreOf" where
  "notify st = st\<lparr>notified := Suc (notified st)\<rparr>"

definition saveToLocal :: "'r StoreOf \<Rightarrow> 'r StoreOf" where
  "saveToLocal st = (if storageWritable st then st\<lparr>localPoints := Some (points st)\<rparr> else st)"

definition setScale :: "real \<Rightarrow> Store \<Rightarrow> Store" where
  "setScale s st = notify (st\<lparr>state := (state st)\<lparr>scale := max (1/10) (min 6 s)\<rparr>\<rparr>)"

definition setOffset :: "real \<Rightarrow> real \<Rightarrow> Store \<Rightarrow> Store" where
  "setOffset x y st = notify (st\<lparr>state := (state st)\<lparr>offsetX := x, offsetY := y\<rparr>\<rparr>)"

definition setCircleSize :: "real \<Rightarrow> Store \<Rightarrow> Store" where
  "setCircleSize s st = notify (st\<lparr>state := (state st)\<lparr>circleSize := s\<rparr>\<rparr>)"

definition setSelectedPointId :: "string option \<Rightarrow> Store \<Rightarrow> Store" where
  "setSelectedPointId i st = notify (st\<lparr>state := (state st)\<lparr>selectedPointId := i\<rparr>\<rparr>)"

definition hasRowNum :: "int \<Rightarrow> Store \<Rightarrow> bool" where
  "hasRowNum r st = list_ex (\<lambda>p. rowNum p = r) (points st)"

text \<open>
  \<open>addPoint\<close> with integer rows, as \<open>addPointAtPosition\<close> passes them for an integer
  row input. \<open>Array.prototype.sort\<close> with the comparator \<open>a.rowNum - b.rowNum\<close> is
  then a stable ascending sort on the row number: \<open>sort_key rowNum\<close>. The subsection
  after this one gives \<open>addPoint_js\<close>, the same function for a row that may be NaN; the
  two agree on integer rows (\<open>addPoint_js_refines\<close>).
\<close>

definition addPoint :: "PointData \<Rightarrow> Store \<Rightarrow> Store" where
  "addPoint point st =
     (if list_ex (\<lambda>p. rowNum p = rowNum point) (points st) then st
      else notify (saveToLocal (st\<lparr>points := sort_key rowNum (points st @ [point])\<rparr>)))"

fun findIndex :: "('a \<Rightarrow> bool) \<Rightarrow> 'a list \<Rightarrow> nat option" where
  "findIndex P [] = None"
| "findIndex P (x # xs) = (if P x then Some 0 else map_option Suc (findIndex P xs))"

text \<open>\<open>splice(index, 1)\<close>: the list without the element at \<open>index\<close>.\<close>

definition splice1 :: "nat \<Rightarrow> 'a list \<Rightarrow> 'a list" where
  "splice1 k xs = take k xs @ drop (Suc k) xs"

definition removePoint :: "string \<Rightarrow> Store \<Rightarrow> PointData option \<times> Store" where
  "removePoint i st =
     (case findIndex (\<lambda>p. id_p p = i) (points st) of
        None \<Rightarrow> (None, st)
      | Some k \<Rightarrow>
          let removed = points st ! k;
              st1 = st\<lparr>points := splice1 k (points st)\<rparr>;
              st2 = (if selectedPointId (state st1) = Some i
                     then st1\<lparr>state := (state st1)\<lparr>selectedPointId := None\<rparr>\<rparr>
                     else st1)
          in (Some removed, notify (saveToLocal st2)))"

definition clearAllPoints :: "Store \<Rightarrow> Store" where
  "clearAllPoints st =
     notify (saveToLocal (st\<lparr>points := [], state := (state st)\<lparr>selectedPointId := None\<rparr>\<rparr>))"

text \<open>The \<open>for\<close> loop of \<open>getNextAvailableRow\<close>, from its counter \<open>i\<close> on.\<close>

function nextRowFrom :: "int list \<Rightarrow> int \<Rightarrow> int" where
  "nextRowFrom existingRows i =
     (if i \<le> 215
      then (if i \<notin> set existingRows then i else nextRowFrom existingRows (i + 1))
      else 215)"
  by pat_completeness auto
termination
  by (relation "measure (\<lambda>(rows, i). nat (216 - i))") auto

declare nextRowFrom.simps [simp del]

definition getNextAvailableRow :: "Store \<Rightarrow> int" where
  "getNextAvailableRow st = nextRowFrom (map rowNum (points st)) 1"

text \<open>
  \<open>loadFromLocal\<close> returns the parsed array (or the empty one) and, when the entry holds
  an array, replaces the point list with it unchecked.
\<close>

definition loadFromLocal :: "Store \<Rightarrow> PointData list \<times> Store" where
  "loadFromLocal st =
     (case localPoints st of
        Some parsed \<Rightarrow> (parsed, notify (st\<lparr>points := parsed\<rparr>))
      | None \<Rightarrow> ([], st))"


subsection \<open>addPoint on JavaScript numbers\<close>

text \<open>
  \<open>addPoint\<close> above takes the row as an integer. \<open>getNextRowInput\<close> returns what
  \<open>parseInt\<close> gives, an integer or NaN, and NaN passes both guards of
  \<open>addPointAtPosition\<close>, so \<open>Store.addPoint\<close> can receive it. Here is the same function
  with the row as such a number.
\<close>

datatype RowNumber = Row int | NaN

type_synonym NumberPoint = "RowNumber PointDataOf"
type_synonym NumberStore = "RowNumber StoreOf"

text \<open>\<open>===\<close> on two numbers: NaN equals nothing, itself included.\<close>

fun strictEquals :: "RowNumber \<Rightarrow> RowNumber \<Rightarrow> bool" where
  "strictEquals (Row a) (Row b) = (a = b)"
| "strictEquals _ _ = False"

text \<open>\<open>a - b\<close>: NaN when either operand is.\<close>

fun minus_js :: "RowNumber \<Rightarrow> RowNumber \<Rightarrow> RowNumber" where
  "minus_js (Row a) (Row b) = Row (a - b)"
| "minus_js _ _ = NaN"

text \<open>ECMAScript's SortCompare reads a comparator result of NaN as +0.\<close>

fun sortCompare :: "RowNumber \<Rightarrow> int" where
  "sortCompare (Row v) = v"
| "sortCompare NaN = 0"

text \<open>
  \<open>Array.prototype.sort\<close> with a comparator, as a stable insertion sort: an element goes
  before the first one it does not compare greater than. With integer rows this is
  \<open>sort_key rowNum\<close> (\<open>arraySort_toNumberPoint\<close> below). With a NaN row the comparator is
  not consistent and ECMAScript leaves the order to the implementation; on the lists
  evaluated below every comparison that this insertion sort makes, and every one that
  V8's run detection makes, has a NaN row on one side and counts as 0, so both leave the
  array as it is.
\<close>

fun insertBy :: "('a \<Rightarrow> 'a \<Rightarrow> int) \<Rightarrow> 'a \<Rightarrow> 'a list \<Rightarrow> 'a list" where
  "insertBy cmp x [] = [x]"
| "insertBy cmp x (y # ys) = (if cmp x y \<le> 0 then x # y # ys else y # insertBy cmp x ys)"

definition arraySort :: "('a \<Rightarrow> 'a \<Rightarrow> int) \<Rightarrow> 'a list \<Rightarrow> 'a list" where
  "arraySort cmp xs = foldr (insertBy cmp) xs []"

text \<open>The comparator \<open>(a, b) => a.rowNum - b.rowNum\<close>.\<close>

definition byRowNum :: "NumberPoint \<Rightarrow> NumberPoint \<Rightarrow> int" where
  "byRowNum a b = sortCompare (minus_js (rowNum a) (rowNum b))"

definition addPoint_js :: "NumberPoint \<Rightarrow> NumberStore \<Rightarrow> NumberStore" where
  "addPoint_js point st =
     (if list_ex (\<lambda>p. strictEquals (rowNum p) (rowNum point)) (points st) then st
      else notify (saveToLocal (st\<lparr>points := arraySort byRowNum (points st @ [point])\<rparr>)))"

text \<open>A point and a store with integer rows, read as ones with number rows.\<close>

definition toNumberPoint :: "PointData \<Rightarrow> NumberPoint" where
  "toNumberPoint p = \<lparr> id_p = id_p p, x_p = x_p p, y_p = y_p p, size_p = size_p p, rowNum = Row (rowNum p) \<rparr>"

definition toNumberStore :: "Store \<Rightarrow> NumberStore" where
  "toNumberStore st = \<lparr> state = state st, points = map toNumberPoint (points st),
     excelData = excelData st, localPoints = map_option (map toNumberPoint) (localPoints st),
     storageWritable = storageWritable st, notified = notified st \<rparr>"

subsection \<open>Import and export\<close>

text \<open>
  A parsed JSON object with the keys the import and export paths read or write. A key
  that is absent (\<open>undefined\<close>) is \<open>None\<close>; the import file format requires \<open>x\<close> and
  \<open>y\<close>, which are copied as they are.
\<close>

record JsonItem =
  id_j :: "string option"
  x_j :: real
  y_j :: real
  size_j :: "real option"
  rowNum_j :: "int option"
  row_j :: "int option"
  plate_j :: "string option"
  signals_j :: "(string \<times> real) list option"

text \<open>\<open>String(n)\<close> for an integer \<open>n\<close>: its decimal digits, with a sign when negative.\<close>

fun digits :: "nat \<Rightarrow> string" where
  "digits n =
     (if n < 10 then [char_of (48 + n)] else digits (n div 10) @ [char_of (48 + n mod 10)])"

declare digits.simps [simp del]

definition numberToString :: "int \<Rightarrow> string" where
  "numberToString n = (if n < 0 then CHR ''-'' # digits (nat (- n)) else digits (nat n))"

text \<open>
  The id template of \<open>importPoints\<close>, \<open>c_<rowNum>_<Date.now()>_<random>\<close>. The clock
  reading and the nine base-36 characters cut from \<open>Math.random()\<close> come from outside.
\<close>

definition importId :: "int \<Rightarrow> nat \<times> string \<Rightarrow> string" where
  "importId r e = ''c_'' @ numberToString r @ ''_'' @ numberToString (int (fst e)) @ ''_'' @ snd e"

text \<open>\<open>v || d\<close> on an optional number: \<open>undefined\<close> and \<open>0\<close> are both falsy.\<close>

definition orDefault :: "real option \<Rightarrow> real \<Rightarrow> real" where
  "orDefault v d = (case v of None \<Rightarrow> d | Some s \<Rightarrow> if s = 0 then d else s)"

text \<open>The guard of \<open>importPoints\<close>: \<open>item.rowNum >= 1 && item.rowNum <= 215\<close>.\<close>

definition validRow :: "JsonItem \<Rightarrow> bool" where
  "validRow item = (case rowNum_j item of None \<Rightarrow> False | Some r \<Rightarrow> r \<ge> 1 \<and> r \<le> 215)"

text \<open>
  One round of the \<open>forEach\<close> callback of \<open>importPoints\<close>, on the \<open>k\<close>-th item of the
  input; \<open>fresh k\<close> is what \<open>Date.now()\<close> and \<open>Math.random()\<close> give in that round. A missing
  \<open>rowNum\<close> fails both comparisons.
\<close>

definition importItem :: "(nat \<Rightarrow> nat \<times> string) \<Rightarrow> PointData list \<Rightarrow> nat \<times> JsonItem \<Rightarrow> PointData list" where
  "importItem fresh pts ki =
     (case rowNum_j (snd ki) of
        None \<Rightarrow> pts
      | Some r \<Rightarrow>
          if r \<ge> 1 \<and> r \<le> 215
          then pts @ [\<lparr> id_p = importId r (fresh (fst ki)),
                        x_p = x_j (snd ki),
                        y_p = y_j (snd ki),
                        size_p = orDefault (size_j (snd ki)) 24,
                        rowNum = r \<rparr>]
          else pts)"

definition importPoints :: "(nat \<Rightarrow> nat \<times> string) \<Rightarrow> JsonItem list \<Rightarrow> Store \<Rightarrow> Store" where
  "importPoints fresh data st =
     notify (saveToLocal
       (st\<lparr>points := sort_key rowNum (foldl (importItem fresh) [] (enumerate 0 data))\<rparr>))"

text \<open>\<open>this.excelData[rowNum - 1] || null\<close>.\<close>

definition getPlateData :: "int \<Rightarrow> Store \<Rightarrow> PlateData option" where
  "getPlateData r st =
     (if 1 \<le> r \<and> r \<le> int (length (excelData st)) then Some (excelData st ! nat (r - 1)) else None)"

definition exportFullData :: "Store \<Rightarrow> JsonItem list" where
  "exportFullData st =
     map (\<lambda>p. let plateData = getPlateData (rowNum p) st in
            \<lparr> id_j = None, x_j = x_p p, y_j = y_p p, size_j = Some (size_p p),
              rowNum_j = None, row_j = Some (rowNum p),
              plate_j = map_option plate plateData,
              signals_j = map_option signals plateData \<rparr>)
         (points st)"

text \<open>
  The normalisation in \<open>handleJSONImport\<close> (main.ts): \<open>rowNum: item.rowNum || item.row\<close>.
\<close>

definition normalizeItem :: "JsonItem \<Rightarrow> JsonItem" where
  "normalizeItem item =
     item\<lparr>rowNum_j := (case rowNum_j item of
                          None \<Rightarrow> row_j item
                        | Some r \<Rightarrow> if r = 0 then row_j item else Some r)\<rparr>"


section \<open>Binary64 arithmetic\<close>

text \<open>
  A JavaScript number is an IEEE 754 binary64 value, and every arithmetic operation
  returns the exact result rounded to the nearest such value, a tie going to the one with
  an even significand. The finite binary64 values are the multiples of \<open>2 ^ (e - 52)\<close>
  of magnitude below \<open>2 ^ (e + 1)\<close>, for \<open>e\<close> from -1022 to 1023. \<open>round64\<close> is this
  rounding on the reals; a result of magnitude \<open>2 ^ 1024\<close> or more is Infinity in
  JavaScript and outside the model, and so is a division by 0.
\<close>

text \<open>How often \<open>x\<close> can be halved and stay at or above 1; how often a positive \<open>x\<close>
  must be doubled to reach 1.\<close>

function halvings :: "real \<Rightarrow> nat" where
  "halvings x = (if 2 \<le> x then Suc (halvings (x / 2)) else 0)"
  by pat_completeness auto
termination
proof (relation "measure (\<lambda>x. nat \<lfloor>x\<rfloor>)")
  show "wf (measure (\<lambda>x::real. nat \<lfloor>x\<rfloor>))" by simp
next
  fix x :: real
  assume x: "2 \<le> x"
  have "x / 2 \<le> x - 1" using x by simp
  then have "\<lfloor>x / 2\<rfloor> \<le> \<lfloor>x - 1\<rfloor>" by (rule floor_mono)
  then have "\<lfloor>x / 2\<rfloor> < \<lfloor>x\<rfloor>" by simp
  moreover have "0 < \<lfloor>x\<rfloor>" using x by simp
  ultimately show "(x / 2, x) \<in> measure (\<lambda>x. nat \<lfloor>x\<rfloor>)" by simp
qed

function doublings :: "real \<Rightarrow> nat" where
  "doublings x = (if 0 < x \<and> x < 1 then Suc (doublings (2 * x)) else 0)"
  by pat_completeness auto
termination
proof (relation "measure (\<lambda>x. nat \<lfloor>1 / x\<rfloor>)")
  show "wf (measure (\<lambda>x::real. nat \<lfloor>1 / x\<rfloor>))" by simp
next
  fix x :: real
  assume x: "0 < x \<and> x < 1"
  define y where "y = 1 / x"
  have y: "1 < y" using x by (simp add: y_def)
  have half: "1 / (2 * x) = y / 2" by (simp add: y_def)
  have "1 \<le> \<lfloor>y\<rfloor>" using y by simp
  have "y < of_int \<lfloor>y\<rfloor> + 1" by linarith
  then have "y / 2 < of_int \<lfloor>y\<rfloor>" using \<open>1 \<le> \<lfloor>y\<rfloor>\<close> by linarith
  then have "\<lfloor>y / 2\<rfloor> < \<lfloor>y\<rfloor>" by (simp add: floor_less_iff)
  with \<open>1 \<le> \<lfloor>y\<rfloor>\<close> show "(2 * x, x) \<in> measure (\<lambda>x. nat \<lfloor>1 / x\<rfloor>)"
    by (simp add: half y_def)
qed

declare halvings.simps [simp del] doublings.simps [simp del]

text \<open>The \<open>e\<close> with \<open>2 ^ e \<le> |x| < 2 ^ (e + 1)\<close>, for \<open>x\<close> other than 0.\<close>

definition exponent :: "real \<Rightarrow> int" where
  "exponent x = (if 1 \<le> \<bar>x\<bar> then int (halvings \<bar>x\<bar>) else - int (doublings \<bar>x\<bar>))"

text \<open>The spacing of the binary64 values around \<open>x\<close>; below \<open>2 ^ -1022\<close> it stays
  \<open>2 ^ -1074\<close>.\<close>

definition ulp :: "real \<Rightarrow> real" where
  "ulp x = power_int 2 (max (exponent x) (- 1022) - 52)"

text \<open>The nearest integer, a tie going to the even one.\<close>

definition roundTiesToEven :: "real \<Rightarrow> int" where
  "roundTiesToEven y =
     (let n = \<lfloor>y\<rfloor>; d = y - of_int n
      in if d < 1 / 2 then n else if 1 / 2 < d then n + 1 else if even n then n else n + 1)"

definition round64 :: "real \<Rightarrow> real" where
  "round64 x = (if x = 0 then 0 else ulp x * of_int (roundTiesToEven (x / ulp x)))"

text \<open>\<open>a * b\<close>, \<open>a - b\<close> and \<open>a / b\<close> on JavaScript numbers.\<close>

definition times64 :: "real \<Rightarrow> real \<Rightarrow> real" where
  "times64 a b = round64 (a * b)"

definition minus64 :: "real \<Rightarrow> real \<Rightarrow> real" where
  "minus64 a b = round64 (a - b)"

definition divide64 :: "real \<Rightarrow> real \<Rightarrow> real" where
  "divide64 a b = round64 (a / b)"

section \<open>The canvas manager (canvas.ts)\<close>

text \<open>
  What \<open>createPointShape\<close> builds for a point: the group's position, the circle's radius
  and stroke width, the label's text and font size.
\<close>

record Marker =
  group_x :: real
  group_y :: real
  radius :: real
  strokeWidth :: real
  label :: string
  fontSize :: real

text \<open>
  The fields of \<open>CanvasManager\<close> that the operations below read or write: the container's
  client size, the background image's width and height (\<open>None\<close> while no image is loaded),
  the marker of each rendered point id, and the position and scale that \<open>updateTransform\<close>
  gives to the image layer and the points layer alike.
\<close>

record CanvasManager =
  clientWidth :: real
  clientHeight :: real
  backgroundImage :: "(real \<times> real) option"
  pointShapes :: "string \<rightharpoonup> Marker"
  layerX :: real
  layerY :: real
  layerScale :: real

definition getPointById :: "string \<Rightarrow> Store \<Rightarrow> PointData option" where
  "getPointById i st = find (\<lambda>p. id_p p = i) (points st)"

definition pointShape :: "AppState \<Rightarrow> PointData \<Rightarrow> Marker" where
  "pointShape s point =
     (let visualSize = size_p point / scale s in
      \<lparr> group_x = x_p point,
        group_y = y_p point,
        radius = visualSize / 2,
        strokeWidth = max 1 (2 / scale s),
        label = numberToString (rowNum point),
        fontSize = max 8 (11 / scale s) \<rparr>)"

definition createPointShape :: "PointData \<Rightarrow> CanvasManager \<Rightarrow> Store \<Rightarrow> CanvasManager" where
  "createPointShape point cm st =
     cm\<lparr>pointShapes := (pointShapes cm)(id_p point \<mapsto> pointShape (state st) point)\<rparr>"

definition updateAllPointSizes :: "CanvasManager \<Rightarrow> Store \<Rightarrow> CanvasManager" where
  "updateAllPointSizes cm st =
     cm\<lparr>pointShapes := (\<lambda>i.
        case pointShapes cm i of
          None \<Rightarrow> None
        | Some shape \<Rightarrow>
            (case getPointById i st of
               None \<Rightarrow> Some shape
             | Some point \<Rightarrow>
                 let visualSize = size_p point / scale (state st) in
                 Some (shape\<lparr>radius := visualSize / 2,
                              strokeWidth := max 1 (2 / scale (state st)),
                              fontSize := max 8 (11 / scale (state st))\<rparr>)))\<rparr>"

definition updateTransform :: "CanvasManager \<Rightarrow> Store \<Rightarrow> CanvasManager" where
  "updateTransform cm st =
     updateAllPointSizes
       (cm\<lparr>layerX := offsetX (state st), layerY := offsetY (state st),
           layerScale := scale (state st)\<rparr>) st"

definition renderAllPoints :: "CanvasManager \<Rightarrow> Store \<Rightarrow> CanvasManager" where
  "renderAllPoints cm st =
     foldl (\<lambda>c point. createPointShape point c st) (cm\<lparr>pointShapes := Map.empty\<rparr>) (points st)"

text \<open>
  \<open>mousePointTo\<close>, as the wheel handler and \<open>zoom\<close> compute it: the image-space point
  that the viewport \<open>s\<close> shows at the screen position \<open>pos\<close>.
\<close>

definition mousePointTo :: "AppState \<Rightarrow> real \<times> real \<Rightarrow> real \<times> real" where
  "mousePointTo s pos =
     (divide64 (minus64 (fst pos) (offsetX s)) (scale s),
      divide64 (minus64 (snd pos) (offsetY s)) (scale s))"

text \<open>
  The wheel handler of \<open>setupEventListeners\<close>; \<open>pos\<close> is the pointer position
  (\<open>null\<close> is \<open>None\<close>) and \<open>deltaY\<close> the wheel delta. The literals 1.12, 0.89 and 0.1
  are the binary64 values nearest to them; 6 is exact. \<open>setScale\<close> clamps the scale once
  more, which changes nothing: the scale is already between the binary64 0.1 and 6.
\<close>

definition wheel :: "(real \<times> real) option \<Rightarrow> real \<Rightarrow> CanvasManager \<times> Store \<Rightarrow> CanvasManager \<times> Store" where
  "wheel pointer deltaY w =
     (case pointer of
        None \<Rightarrow> w
      | Some pos \<Rightarrow>
          let cm = fst w; st = snd w;
              currentState = state st;
              oldScale = scale currentState;
              factor = (if deltaY < 0 then round64 (112 / 100) else round64 (89 / 100));
              newScale = max (round64 (1 / 10)) (min 6 (times64 oldScale factor));
              mousePoint = mousePointTo currentState pos;
              newOffsetX = minus64 (fst pos) (times64 (fst mousePoint) newScale);
              newOffsetY = minus64 (snd pos) (times64 (snd mousePoint) newScale);
              st' = setOffset newOffsetX newOffsetY (setScale newScale st)
          in (updateTransform cm st', st'))"

text \<open>\<open>centerX\<close> and \<open>centerY\<close> of \<open>zoom\<close>.\<close>

definition containerCenter :: "CanvasManager \<Rightarrow> real \<times> real" where
  "containerCenter cm = (divide64 (clientWidth cm) 2, divide64 (clientHeight cm) 2)"

definition zoom :: "real \<Rightarrow> CanvasManager \<times> Store \<Rightarrow> CanvasManager \<times> Store" where
  "zoom factor w =
     (let cm = fst w; st = snd w;
          s = state st;
          center = containerCenter cm;
          oldScale = scale s;
          newScale = max (round64 (1 / 10)) (min 6 (times64 oldScale factor));
          mousePoint = mousePointTo s center;
          newOffsetX = minus64 (fst center) (times64 (fst mousePoint) newScale);
          newOffsetY = minus64 (snd center) (times64 (snd mousePoint) newScale);
          st' = setOffset newOffsetX newOffsetY (setScale newScale st)
      in (updateTransform cm st', st'))"

definition fitToContent :: "CanvasManager \<times> Store \<Rightarrow> CanvasManager \<times> Store" where
  "fitToContent w =
     (case backgroundImage (fst w) of
        None \<Rightarrow> w
      | Some (imageWidth, imageHeight) \<Rightarrow>
          let cm = fst w; st = snd w;
              containerWidth = clientWidth cm;
              containerHeight = clientHeight cm;
              contentLeft = imageWidth * (15 / 100);
              contentTop = imageHeight * (28 / 100);
              contentWidth = imageWidth * (72 / 100);
              contentHeight = imageHeight * (48 / 100);
              scale0 = min (containerWidth / contentWidth) (containerHeight / contentHeight)
                         * (92 / 100);
              clampedScale = max (3 / 10) (min 4 scale0);
              offset_x = containerWidth / 2 - (contentLeft + contentWidth / 2) * clampedScale;
              offset_y = containerHeight / 2 - (contentTop + contentHeight / 2) * clampedScale;
              st' = setOffset offset_x offset_y (setScale clampedScale st)
          in (updateTransform cm st', st'))"

text \<open>\<open>Math.round\<close>: the nearest integer, a tie going up.\<close>

definition mathRound :: "real \<Rightarrow> real" where
  "mathRound v = of_int \<lfloor>v + 1 / 2\<rfloor>"

text \<open>
  \<open>addPointAtPosition\<close>; \<open>nextRow\<close> is what \<open>getNextRowInput\<close> parses from the row input
  and \<open>now\<close> what \<open>Date.now()\<close> returns. The toasts are left out.
\<close>

definition addPointAtPosition :: "real \<Rightarrow> real \<Rightarrow> int \<Rightarrow> nat \<Rightarrow> CanvasManager \<times> Store \<Rightarrow> CanvasManager \<times> Store" where
  "addPointAtPosition x y nextRow now w =
     (let cm = fst w; st = snd w in
      if nextRow < 1 \<or> nextRow > 215 then w
      else if hasRowNum nextRow st then w
      else
        let point = \<lparr> id_p = ''c_'' @ numberToString nextRow @ ''_'' @ numberToString (int now),
                      x_p = mathRound x,
                      y_p = mathRound y,
                      size_p = circleSize (state st),
                      rowNum = nextRow \<rparr>;
            st' = addPoint point st
        in (createPointShape point cm st', st'))"

section \<open>Operation sequences\<close>

text \<open>
  The operations that change the point list, as the application reaches them: placement
  through \<open>addPointAtPosition\<close> (the only caller of \<open>addPoint\<close>), removal, clearing,
  import and restoring from \<open>localStorage\<close>.
\<close>

datatype Op =
    Place real real int nat
  | Remove string
  | ClearAll
  | Import "nat \<Rightarrow> nat \<times> string" "JsonItem list"
  | Load

fun applyOp :: "CanvasManager \<times> Store \<Rightarrow> Op \<Rightarrow> CanvasManager \<times> Store" where
  "applyOp w (Place x y nextRow now) = addPointAtPosition x y nextRow now w"
| "applyOp w (Remove i) = (fst w, snd (removePoint i (snd w)))"
| "applyOp w ClearAll = (fst w, clearAllPoints (snd w))"
| "applyOp w (Import fresh data) = (fst w, importPoints fresh data (snd w))"
| "applyOp w Load = (fst w, snd (loadFromLocal (snd w)))"

definition rowsInRange :: "PointData list \<Rightarrow> bool" where
  "rowsInRange ps = list_all (\<lambda>p. 1 \<le> rowNum p \<and> rowNum p \<le> 215) ps"

definition storedRowsInRange :: "Store \<Rightarrow> bool" where
  "storedRowsInRange st =
     (rowsInRange (points st) \<and> (case localPoints st of None \<Rightarrow> True | Some ps \<Rightarrow> rowsInRange ps))"

text \<open>The row, position and size of a point: what a point is apart from its id.\<close>

definition pointFields :: "PointData \<Rightarrow> int \<times> real \<times> real \<times> real" where
  "pointFields p = (rowNum p, x_p p, y_p p, size_p p)"


section \<open>Example data\<close>

definition pointA :: PointData where
  "pointA = \<lparr> id_p = ''c_1_1000'', x_p = 100, y_p = 50, size_p = 24, rowNum = 1 \<rparr>"

definition pointB :: PointData where
  "pointB = \<lparr> id_p = ''c_5_2000'', x_p = 300, y_p = 120, size_p = 24, rowNum = 5 \<rparr>"

text \<open>A second point on row 1.\<close>

definition pointC :: PointData where
  "pointC = \<lparr> id_p = ''c_1_3000'', x_p = 7, y_p = 8, size_p = 10, rowNum = 1 \<rparr>"

text \<open>A point of size 0, and a point on a row past 215.\<close>

definition pointZ :: PointData where
  "pointZ = \<lparr> id_p = ''c_3_4000'', x_p = 40, y_p = 60, size_p = 0, rowNum = 3 \<rparr>"

definition pointOut :: PointData where
  "pointOut = \<lparr> id_p = ''c_216_5000'', x_p = 1, y_p = 2, size_p = 24, rowNum = 216 \<rparr>"

text \<open>A clock that ticks once per item and a fixed random suffix.\<close>

definition sampleFresh :: "nat \<Rightarrow> nat \<times> string" where
  "sampleFresh k = (1000 + k, ''k3j9x0a1z'')"

text \<open>Import items: two on row 7 (one with an id and no size), one on row 2, one on row 300.\<close>

definition sampleItems :: "JsonItem list" where
  "sampleItems =
     [\<lparr> id_j = Some ''mine'', x_j = 10, y_j = 20, size_j = None, rowNum_j = Some 7,
        row_j = None, plate_j = None, signals_j = None \<rparr>,
      \<lparr> id_j = None, x_j = 30, y_j = 40, size_j = Some 16, rowNum_j = Some 2,
        row_j = None, plate_j = None, signals_j = None \<rparr>,
      \<lparr> id_j = None, x_j = 50, y_j = 60, size_j = Some 16, rowNum_j = Some 300,
        row_j = None, plate_j = None, signals_j = None \<rparr>,
      \<lparr> id_j = None, x_j = 70, y_j = 80, size_j = Some 12, rowNum_j = Some 7,
        row_j = None, plate_j = None, signals_j = None \<rparr>]"

text \<open>A canvas of 200 by 200 pixels, and one of 800 by 600 showing an image of 1000 by 800.\<close>

definition squareCanvas :: CanvasManager where
  "squareCanvas = \<lparr> clientWidth = 200, clientHeight = 200, backgroundImage = None,
     pointShapes = Map.empty, layerX = 0, layerY = 0, layerScale = 1 \<rparr>"

definition imageCanvas :: CanvasManager where
  "imageCanvas = \<lparr> clientWidth = 800, clientHeight = 600, backgroundImage = Some (1000, 800),
     pointShapes = Map.empty, layerX = 0, layerY = 0, layerScale = 1 \<rparr>"

text \<open>Two points whose row is NaN.\<close>

definition nanPointA :: NumberPoint where
  "nanPointA = \<lparr> id_p = ''c_NaN_1000'', x_p = 10, y_p = 10, size_p = 24, rowNum = NaN \<rparr>"

definition nanPointB :: NumberPoint where
  "nanPointB = \<lparr> id_p = ''c_NaN_2000'', x_p = 20, y_p = 20, size_p = 24, rowNum = NaN \<rparr>"

text \<open>
  A viewport at scale 5 whose image origin is 10^12 pixels to the left of the screen's,
  and a canvas of 666 by 666 pixels.
\<close>

definition farStore :: Store where
  "farStore = (newStore None True)\<lparr>state := initialState\<lparr>scale := 5, offsetX := - 1000000000000\<rparr>\<rparr>"

definition wideCanvas :: CanvasManager where
  "wideCanvas = \<lparr> clientWidth = 666, clientHeight = 666, backgroundImage = None,
     pointShapes = Map.empty, layerX = 0, layerY = 0, layerScale = 1 \<rparr>"

text \<open>A store holding the point of size 0.\<close>

definition zeroSizeStore :: Store where
  "zeroSizeStore = addPoint pointZ (newStore None True)"

text \<open>
  A session: a placement on row 3, two placements on rows outside 1..215, an import, a
  removal, a clearing and a restore.
\<close>

definition sampleOps :: "Op list" where
  "sampleOps = [Place 10.4 20.5 3 1000, Place 1 1 0 1001, Place 5 5 216 1002,
     Import sampleFresh sampleItems, Remove ''c_2_1001_k3j9x0a1z'', ClearAll, Load]"

text \<open>The initial viewport zoomed in to scale 4.\<close>

definition zoomedState :: AppState where
  "zoomedState = initialState\<lparr>scale := 4\<rparr>"

text \<open>A store whose points occupy every row from 1 to 215.\<close>

definition fullStore :: Store where
  "fullStore = (newStore None True)
     \<lparr>points := map (\<lambda>r. \<lparr> id_p = numberToString r, x_p = 0, y_p = 0, size_p = 24, rowNum = r \<rparr>)
                   [1..215]\<rparr>"

section \<open>Adding points\<close>

lemma list_ex_rowNum: "list_ex (\<lambda>q. rowNum q = r) ps \<longleftrightarrow> r \<in> set (map rowNum ps)"
  by (auto simp: list_ex_iff)

lemma points_notify_save [simp]: "points (notify (saveToLocal st)) = points st"
  by (simp add: notify_def saveToLocal_def)

lemma state_notify_save [simp]: "state (notify (saveToLocal st)) = state st"
  by (simp add: notify_def saveToLocal_def)

lemma addPoint_present: "hasRowNum (rowNum p) st \<Longrightarrow> addPoint p st = st"
  by (simp add: addPoint_def hasRowNum_def)

lemma addPoint_absent:
  "\<not> hasRowNum (rowNum p) st \<Longrightarrow> points (addPoint p st) = sort_key rowNum (points st @ [p])"
  by (simp add: addPoint_def hasRowNum_def)

lemma addPoint_keeps_distinct:
  assumes "distinct (map rowNum (points st))"
  shows "distinct (map rowNum (points (addPoint p st)))"
proof (cases "hasRowNum (rowNum p) st")
  case True
  with assms show ?thesis by (simp add: addPoint_present)
next
  case False
  then have new: "rowNum p \<notin> set (map rowNum (points st))"
    by (simp add: hasRowNum_def list_ex_rowNum)
  have "mset (map rowNum (points (addPoint p st))) = mset (map rowNum (points st @ [p]))"
    using False by (simp add: addPoint_absent)
  moreover have "distinct (map rowNum (points st @ [p]))"
    using assms new by simp
  ultimately show ?thesis by (metis mset_eq_imp_distinct_iff)
qed

lemma addPoint_keeps_sorted:
  assumes "sorted (map rowNum (points st))"
  shows "sorted (map rowNum (points (addPoint p st)))"
proof (cases "hasRowNum (rowNum p) st")
  case True
  with assms show ?thesis by (simp add: addPoint_present)
next
  case False
  then show ?thesis by (simp add: addPoint_absent)
qed

lemma addPoints_distinct_sorted:
  "distinct (map rowNum (points st)) \<and> sorted (map rowNum (points st)) \<Longrightarrow>
   distinct (map rowNum (points (foldl (\<lambda>s p. addPoint p s) st ps))) \<and>
   sorted (map rowNum (points (foldl (\<lambda>s p. addPoint p s) st ps)))"
proof (induction ps arbitrary: st)
  case Nil
  then show ?case by simp
next
  case (Cons p ps)
  have "distinct (map rowNum (points (addPoint p st))) \<and> sorted (map rowNum (points (addPoint p st)))"
    using Cons.prems by (simp add: addPoint_keeps_distinct addPoint_keeps_sorted)
  then show ?case using Cons.IH by simp
qed


text \<open>
  With integer rows: after any sequence of \<open>addPoint\<close> calls on a new store no two
  points share a row number and the list is in ascending row order. A call whose row is
  already present returns the store as it was (points, storage entry and notification
  count alike); any other call leaves the old points plus the new one, sorted by row.
\<close>

theorem addPoint_rows_unique:
  "distinct (map rowNum (points (foldl (\<lambda>s p. addPoint p s) (newStore saved writable) ps)))
   \<and> sorted (map rowNum (points (foldl (\<lambda>s p. addPoint p s) (newStore saved writable) ps)))
   \<and> (hasRowNum (rowNum p) st \<longrightarrow> addPoint p st = st)
   \<and> (\<not> hasRowNum (rowNum p) st \<longrightarrow>
        points (addPoint p st) = sort_key rowNum (points st @ [p])
        \<and> mset (points (addPoint p st)) = mset (points st) + {#p#}
        \<and> sorted (map rowNum (points (addPoint p st))))"
proof -
  have "distinct (map rowNum (points (newStore saved writable))) \<and>
        sorted (map rowNum (points (newStore saved writable)))"
    by (simp add: newStore_def)
  then have seq: "distinct (map rowNum (points (foldl (\<lambda>s p. addPoint p s) (newStore saved writable) ps)))
        \<and> sorted (map rowNum (points (foldl (\<lambda>s p. addPoint p s) (newStore saved writable) ps)))"
    by (rule addPoints_distinct_sorted)
  have absent: "\<not> hasRowNum (rowNum p) st \<longrightarrow>
        points (addPoint p st) = sort_key rowNum (points st @ [p])
        \<and> mset (points (addPoint p st)) = mset (points st) + {#p#}
        \<and> sorted (map rowNum (points (addPoint p st)))"
    by (simp add: addPoint_absent)
  show ?thesis using seq absent by (simp add: addPoint_present)
qed


theorem addPoint_rows_unique_witness:
  "distinct (map rowNum (points (foldl (\<lambda>s p. addPoint p s) (newStore None True) [pointB, pointA, pointC])))
   \<and> hasRowNum (rowNum pointC) (addPoint pointA (newStore None True))
   \<and> addPoint pointC (addPoint pointA (newStore None True)) = addPoint pointA (newStore None True)
   \<and> \<not> hasRowNum (rowNum pointA) (addPoint pointB (newStore None True))
   \<and> points (addPoint pointA (addPoint pointB (newStore None True))) = [pointA, pointB]"
proof -
  have present: "hasRowNum (rowNum pointC) (addPoint pointA (newStore None True))"
    by (simp add: hasRowNum_def addPoint_def newStore_def notify_def saveToLocal_def pointA_def pointC_def)
  have absent: "\<not> hasRowNum (rowNum pointA) (addPoint pointB (newStore None True))"
    by (simp add: hasRowNum_def addPoint_def newStore_def notify_def saveToLocal_def pointA_def pointB_def)
  have sorted: "sort_key rowNum (points (addPoint pointB (newStore None True)) @ [pointA]) = [pointA, pointB]"
    by (simp add: addPoint_def newStore_def notify_def saveToLocal_def pointA_def pointB_def)
  show ?thesis
    using present absent sorted
      addPoint_rows_unique [of None True "[pointB, pointA, pointC]" pointC
        "addPoint pointA (newStore None True)"]
      addPoint_rows_unique [of None True "[]" pointA "addPoint pointB (newStore None True)"]
    by simp
qed

section \<open>Adding points whose row is NaN\<close>

text \<open>On integer rows \<open>addPoint_js\<close> is \<open>addPoint\<close>.\<close>

lemma byRowNum_toNumberPoint:
  "byRowNum (toNumberPoint a) (toNumberPoint b) \<le> 0 \<longleftrightarrow> rowNum a \<le> rowNum b"
  by (simp add: byRowNum_def toNumberPoint_def)

lemma insertBy_toNumberPoint:
  "insertBy byRowNum (toNumberPoint x) (map toNumberPoint ys) = map toNumberPoint (insort_key rowNum x ys)"
  by (induction ys) (simp_all add: byRowNum_toNumberPoint)

lemma arraySort_toNumberPoint:
  "arraySort byRowNum (map toNumberPoint xs) = map toNumberPoint (sort_key rowNum xs)"
  by (induction xs) (simp_all add: arraySort_def sort_key_def insertBy_toNumberPoint)

lemma list_ex_toNumberPoint:
  "list_ex (\<lambda>p. strictEquals (rowNum p) (rowNum (toNumberPoint q))) (map toNumberPoint ps)
     \<longleftrightarrow> list_ex (\<lambda>p. rowNum p = rowNum q) ps"
  by (induction ps) (simp_all add: toNumberPoint_def)

lemma addPoint_js_refines:
  "addPoint_js (toNumberPoint p) (toNumberStore st) = toNumberStore (addPoint p st)"
proof (cases "list_ex (\<lambda>q. rowNum q = rowNum p) (points st)")
  case True
  then have "list_ex (\<lambda>q. strictEquals (rowNum q) (rowNum (toNumberPoint p))) (points (toNumberStore st))"
    by (simp add: toNumberStore_def list_ex_toNumberPoint)
  with True show ?thesis by (simp add: addPoint_js_def addPoint_def)
next
  case False
  then have no: "\<not> list_ex (\<lambda>q. strictEquals (rowNum q) (rowNum (toNumberPoint p))) (points (toNumberStore st))"
    by (simp add: toNumberStore_def list_ex_toNumberPoint)
  have "arraySort byRowNum (points (toNumberStore st) @ [toNumberPoint p])
      = map toNumberPoint (sort_key rowNum (points st @ [p]))"
    using arraySort_toNumberPoint [of "points st @ [p]"] by (simp add: toNumberStore_def)
  with False no show ?thesis
    by (simp add: addPoint_js_def addPoint_def toNumberStore_def notify_def saveToLocal_def)
qed

text \<open>
  C7. The claim fails on the code when a row is NaN. Starting from a new store, adding a
  point on row 5, two points whose row is NaN and a point on row 1 keeps all four:
  \<open>NaN === NaN\<close> is false, so the second NaN row is not seen as present, and every
  comparison with a NaN row counts as 0, so the sort moves nothing. The list ends as
  rows 5, NaN, NaN, 1: two points share the row NaN and the rows are not ascending.
\<close>

theorem addPoint_js_keeps_NaN_rows:
  "map rowNum (points (addPoint_js (toNumberPoint pointA) (addPoint_js nanPointB
      (addPoint_js nanPointA (addPoint_js (toNumberPoint pointB) (newStore None True))))))
     = [Row 5, NaN, NaN, Row 1]
   \<and> map id_p (points (addPoint_js (toNumberPoint pointA) (addPoint_js nanPointB
      (addPoint_js nanPointA (addPoint_js (toNumberPoint pointB) (newStore None True))))))
     = [''c_5_2000'', ''c_NaN_1000'', ''c_NaN_2000'', ''c_1_1000'']"
  by (simp add: addPoint_js_def newStore_def notify_def saveToLocal_def arraySort_def byRowNum_def
      toNumberPoint_def pointA_def pointB_def nanPointA_def nanPointB_def)

section \<open>Removing a point\<close>

lemma findIndex_None: "findIndex P xs = None \<longleftrightarrow> (\<forall>x \<in> set xs. \<not> P x)"
  by (induction xs) auto

lemma findIndex_Some:
  "findIndex P xs = Some k \<Longrightarrow> k < length xs \<and> P (xs ! k) \<and> (\<forall>j < k. \<not> P (xs ! j))"
proof (induction xs arbitrary: k)
  case Nil
  then show ?case by simp
next
  case (Cons x xs)
  show ?case
  proof (cases "P x")
    case True
    with Cons.prems show ?thesis by simp
  next
    case False
    with Cons.prems obtain k' where k': "findIndex P xs = Some k'" "k = Suc k'"
      by auto
    from Cons.IH [OF k'(1)] False k'(2) show ?thesis
      by (auto simp: nth_Cons split: nat.splits)
  qed
qed

lemma mset_splice1: "k < length xs \<Longrightarrow> mset (splice1 k xs) = mset xs - {#xs ! k#}"
proof -
  assume k: "k < length xs"
  have "mset xs = mset (take k xs @ xs ! k # drop (Suc k) xs)"
    using id_take_nth_drop [OF k] by simp
  then show ?thesis by (simp add: splice1_def)
qed


text \<open>
  C8. \<open>removePoint\<close> with an id that no point has returns \<open>undefined\<close> and the store
  unchanged. Otherwise it returns the first point with that id and removes exactly that
  element from the list; the selection becomes \<open>null\<close> when it was this id and stays as
  it was otherwise.
\<close>

theorem removePoint_result:
  "((\<forall>p \<in> set (points st). id_p p \<noteq> i) \<longrightarrow> removePoint i st = (None, st))
   \<and> ((\<exists>p \<in> set (points st). id_p p = i) \<longrightarrow>
        (\<exists>k < length (points st).
           id_p (points st ! k) = i
           \<and> (\<forall>j < k. id_p (points st ! j) \<noteq> i)
           \<and> fst (removePoint i st) = Some (points st ! k)
           \<and> points (snd (removePoint i st)) = take k (points st) @ drop (Suc k) (points st)
           \<and> mset (points (snd (removePoint i st))) = mset (points st) - {#points st ! k#}
           \<and> selectedPointId (state (snd (removePoint i st))) =
               (if selectedPointId (state st) = Some i then None
                else selectedPointId (state st))))"
proof (cases "findIndex (\<lambda>p. id_p p = i) (points st)")
  case None
  then have none: "\<forall>p \<in> set (points st). id_p p \<noteq> i"
    by (simp add: findIndex_None)
  have "removePoint i st = (None, st)"
    using None by (simp add: removePoint_def)
  with none show ?thesis by simp
next
  case (Some k)
  from findIndex_Some [OF Some]
  have k: "k < length (points st)" "id_p (points st ! k) = i" "\<forall>j < k. id_p (points st ! j) \<noteq> i"
    by simp_all
  have ms: "mset (take k (points st) @ drop (Suc k) (points st)) = mset (points st) - {#points st ! k#}"
    using mset_splice1 [OF k(1)] by (simp add: splice1_def)
  have r1: "fst (removePoint i st) = Some (points st ! k)"
    using Some by (simp add: removePoint_def Let_def)
  have r2: "points (snd (removePoint i st)) = take k (points st) @ drop (Suc k) (points st)"
    using Some by (simp add: removePoint_def Let_def splice1_def)
  have r3: "selectedPointId (state (snd (removePoint i st))) =
      (if selectedPointId (state st) = Some i then None else selectedPointId (state st))"
    using Some by (simp add: removePoint_def Let_def)
  have some: "\<exists>p \<in> set (points st). id_p p = i"
    using k(1,2) nth_mem by blast
  have found: "\<exists>k < length (points st).
           id_p (points st ! k) = i
           \<and> (\<forall>j < k. id_p (points st ! j) \<noteq> i)
           \<and> fst (removePoint i st) = Some (points st ! k)
           \<and> points (snd (removePoint i st)) = take k (points st) @ drop (Suc k) (points st)
           \<and> mset (points (snd (removePoint i st))) = mset (points st) - {#points st ! k#}
           \<and> selectedPointId (state (snd (removePoint i st))) =
               (if selectedPointId (state st) = Some i then None
                else selectedPointId (state st))"
    using k r1 r2 r3 ms by (intro exI [of _ k]) simp
  have "\<not> (\<forall>p \<in> set (points st). id_p p \<noteq> i)"
    using some by simp
  then have missing: "(\<forall>p \<in> set (points st). id_p p \<noteq> i) \<longrightarrow> removePoint i st = (None, st)"
    by blast
  show ?thesis
    by (rule conjI [OF missing]) (rule impI, rule found)
qed

theorem removePoint_result_witness:
  "removePoint ''c_9_9'' (addPoint pointB (addPoint pointA (newStore None True)))
     = (None, addPoint pointB (addPoint pointA (newStore None True)))
   \<and> fst (removePoint ''c_1_1000''
        (setSelectedPointId (Some ''c_1_1000'') (addPoint pointB (addPoint pointA (newStore None True)))))
     = Some pointA
   \<and> selectedPointId (state (snd (removePoint ''c_1_1000''
        (setSelectedPointId (Some ''c_1_1000'') (addPoint pointB (addPoint pointA (newStore None True)))))))
     = None"
proof -
  let ?st = "addPoint pointB (addPoint pointA (newStore None True))"
  let ?sel = "setSelectedPointId (Some ''c_1_1000'') ?st"
  have pts: "points ?st = [pointA, pointB]" "points ?sel = [pointA, pointB]"
    by (simp_all add: addPoint_def newStore_def pointA_def pointB_def setSelectedPointId_def notify_def saveToLocal_def)
  have sel: "selectedPointId (state ?sel) = Some ''c_1_1000''"
    by (simp add: setSelectedPointId_def notify_def)
  have ids: "id_p pointA = ''c_1_1000''" "id_p pointB = ''c_5_2000''"
    by (simp_all add: pointA_def pointB_def)
  have ex: "\<exists>p \<in> set (points ?sel). id_p p = ''c_1_1000''"
    by (simp add: pts ids)
  note at_sel = removePoint_result [of ?sel "''c_1_1000''", THEN conjunct2, THEN mp, OF ex]
  then obtain k where k0: "k < length (points ?sel)"
      "id_p (points ?sel ! k) = ''c_1_1000''"
      "fst (removePoint ''c_1_1000'' ?sel) = Some (points ?sel ! k)"
      "selectedPointId (state (snd (removePoint ''c_1_1000'' ?sel))) =
         (if selectedPointId (state ?sel) = Some ''c_1_1000'' then None
          else selectedPointId (state ?sel))"
    by blast
  have k: "k < 2" "id_p ([pointA, pointB] ! k) = ''c_1_1000''"
      "fst (removePoint ''c_1_1000'' ?sel) = Some ([pointA, pointB] ! k)"
      "selectedPointId (state (snd (removePoint ''c_1_1000'' ?sel))) = None"
    using k0 by (simp_all add: pts sel)
  have "k = 0"
    using k(1,2) by (cases k) (auto simp: ids)
  with k have found: "fst (removePoint ''c_1_1000'' ?sel) = Some pointA"
    by simp
  have "\<forall>p \<in> set (points ?st). id_p p \<noteq> ''c_9_9''"
    by (simp add: pts ids)
  with removePoint_result [of ?st "''c_9_9''"]
  have missing: "removePoint ''c_9_9'' ?st = (None, ?st)"
    by blast
  show ?thesis
    using missing found k(4) by simp
qed

section \<open>The next available row\<close>

lemma nextRowFrom_upper: "i \<le> 215 \<Longrightarrow> i \<le> nextRowFrom rows i \<and> nextRowFrom rows i \<le> 215"
proof (induction rows i rule: nextRowFrom.induct)
  case (1 rows i)
  show ?case
  proof (cases "i \<notin> set rows")
    case True
    with "1.prems" show ?thesis by (simp add: nextRowFrom.simps [of rows i])
  next
    case False
    show ?thesis
    proof (cases "i + 1 \<le> 215")
      case True
      with 1 False show ?thesis by (simp add: nextRowFrom.simps [of rows i])
    next
      case False
      with "1.prems" have "i = 215" by simp
      then show ?thesis
        by (simp add: nextRowFrom.simps [of rows 215] nextRowFrom.simps [of rows 216])
    qed
  qed
qed

lemma nextRowFrom_below_taken: "i \<le> j \<Longrightarrow> j < nextRowFrom rows i \<Longrightarrow> j \<in> set rows"
proof (induction rows i rule: nextRowFrom.induct)
  case (1 rows i)
  show ?case
  proof (cases "i \<le> 215 \<and> i \<in> set rows")
    case True
    show ?thesis
    proof (cases "j = i")
      case True
      with \<open>i \<le> 215 \<and> i \<in> set rows\<close> show ?thesis by simp
    next
      case False
      with "1.prems" have "i + 1 \<le> j" by simp
      moreover from True "1.prems" have "j < nextRowFrom rows (i + 1)"
        by (simp add: nextRowFrom.simps [of rows i])
      ultimately show ?thesis using "1.IH" True by simp
    qed
  next
    case False
    with "1.prems" show ?thesis
      by (auto simp: nextRowFrom.simps [of rows i] split: if_splits)
  qed
qed

lemma nextRowFrom_free:
  "i \<le> j \<Longrightarrow> j \<le> 215 \<Longrightarrow> j \<notin> set rows \<Longrightarrow> nextRowFrom rows i \<notin> set rows"
proof (induction rows i rule: nextRowFrom.induct)
  case (1 rows i)
  show ?case
  proof (cases "i \<notin> set rows")
    case True
    with "1.prems" show ?thesis by (simp add: nextRowFrom.simps [of rows i])
  next
    case False
    with "1.prems" have "i \<noteq> j" by auto
    with "1.prems" have "i + 1 \<le> j" "i \<le> 215" by simp_all
    with 1 False show ?thesis by (simp add: nextRowFrom.simps [of rows i])
  qed
qed

lemma nextRowFrom_full:
  "\<forall>j. i \<le> j \<and> j \<le> 215 \<longrightarrow> j \<in> set rows \<Longrightarrow> nextRowFrom rows i = 215"
proof (induction rows i rule: nextRowFrom.induct)
  case (1 rows i)
  show ?case
  proof (cases "i \<le> 215")
    case True
    with "1.prems" have "i \<in> set rows" by simp
    moreover have "nextRowFrom rows (i + 1) = 215"
      using "1.IH" True \<open>i \<in> set rows\<close> "1.prems" by simp
    ultimately show ?thesis using True by (simp add: nextRowFrom.simps [of rows i])
  next
    case False
    then show ?thesis by (simp add: nextRowFrom.simps [of rows i])
  qed
qed


text \<open>
  C9. While some row from 1 to 215 is free, \<open>getNextAvailableRow\<close> returns a free row in
  that range below which every row is taken, that is the smallest free one; when every
  row from 1 to 215 is taken it returns 215. With a point on row 1 it returns 2, with
  points on rows 1 and 5 still 2, and after the point on row 1 is removed it returns 1.
\<close>

theorem getNextAvailableRow_smallest_free:
  "((\<exists>j. 1 \<le> j \<and> j \<le> 215 \<and> \<not> hasRowNum j st) \<longrightarrow>
      1 \<le> getNextAvailableRow st \<and> getNextAvailableRow st \<le> 215
      \<and> \<not> hasRowNum (getNextAvailableRow st) st
      \<and> (\<forall>j. 1 \<le> j \<and> j < getNextAvailableRow st \<longrightarrow> hasRowNum j st))
   \<and> ((\<forall>j. 1 \<le> j \<and> j \<le> 215 \<longrightarrow> hasRowNum j st) \<longrightarrow> getNextAvailableRow st = 215)
   \<and> getNextAvailableRow (addPoint pointA (newStore saved writable)) = 2
   \<and> getNextAvailableRow (addPoint pointB (addPoint pointA (newStore saved writable))) = 2
   \<and> getNextAvailableRow
        (snd (removePoint (id_p pointA) (addPoint pointB (addPoint pointA (newStore saved writable)))))
       = 1"
proof -
  let ?rows = "map rowNum (points st)"
  have has: "hasRowNum j st \<longleftrightarrow> j \<in> set ?rows" for j
    by (simp only: hasRowNum_def list_ex_rowNum)
  have range: "1 \<le> getNextAvailableRow st \<and> getNextAvailableRow st \<le> 215"
    unfolding getNextAvailableRow_def by (rule nextRowFrom_upper) simp
  have free: "\<not> hasRowNum (getNextAvailableRow st) st"
    if "\<exists>j. 1 \<le> j \<and> j \<le> 215 \<and> \<not> hasRowNum j st"
  proof -
    from that obtain j where "1 \<le> j" "j \<le> 215" "j \<notin> set ?rows"
      unfolding has by blast
    then have "nextRowFrom ?rows 1 \<notin> set ?rows" by (rule nextRowFrom_free)
    then show ?thesis unfolding has getNextAvailableRow_def .
  qed
  have least: "hasRowNum j st" if "1 \<le> j \<and> j < getNextAvailableRow st" for j
  proof -
    from that have "1 \<le> j" "j < nextRowFrom ?rows 1"
      by (simp_all add: getNextAvailableRow_def)
    then have "j \<in> set ?rows" by (rule nextRowFrom_below_taken)
    then show ?thesis unfolding has .
  qed
  have full: "getNextAvailableRow st = 215" if "\<forall>j. 1 \<le> j \<and> j \<le> 215 \<longrightarrow> hasRowNum j st"
  proof -
    from that have "\<forall>j. 1 \<le> j \<and> j \<le> 215 \<longrightarrow> j \<in> set ?rows"
      unfolding has .
    then show ?thesis unfolding getNextAvailableRow_def by (rule nextRowFrom_full)
  qed
  have pts: "points (addPoint pointA (newStore saved writable)) = [pointA]"
    "points (addPoint pointB (addPoint pointA (newStore saved writable))) = [pointA, pointB]"
    by (simp_all add: addPoint_def newStore_def notify_def saveToLocal_def pointA_def pointB_def)
  have rows: "rowNum pointA = 1" "rowNum pointB = 5"
    by (simp_all add: pointA_def pointB_def)
  have ex1: "getNextAvailableRow (addPoint pointA (newStore saved writable)) = 2"
    by (simp add: getNextAvailableRow_def pts rows
        nextRowFrom.simps [of _ 1] nextRowFrom.simps [of _ 2])
  have ex2: "getNextAvailableRow (addPoint pointB (addPoint pointA (newStore saved writable))) = 2"
    by (simp add: getNextAvailableRow_def pts rows
        nextRowFrom.simps [of _ 1] nextRowFrom.simps [of _ 2])
  have ex3: "getNextAvailableRow
        (snd (removePoint (id_p pointA) (addPoint pointB (addPoint pointA (newStore saved writable)))))
       = 1"
    by (simp add: getNextAvailableRow_def removePoint_def splice1_def Let_def pts rows
        nextRowFrom.simps [of _ 1])
  show ?thesis
    using range free least full ex1 ex2 ex3 by blast
qed

theorem getNextAvailableRow_smallest_free_witness:
  "getNextAvailableRow fullStore = 215
   \<and> \<not> hasRowNum 4 (addPoint pointB (addPoint pointA (newStore None True)))
   \<and> \<not> hasRowNum (getNextAvailableRow (addPoint pointB (addPoint pointA (newStore None True))))
          (addPoint pointB (addPoint pointA (newStore None True)))
   \<and> getNextAvailableRow (addPoint pointB (addPoint pointA (newStore None True))) = 2"
proof -
  have taken: "\<forall>j. 1 \<le> j \<and> j \<le> 215 \<longrightarrow> hasRowNum j fullStore"
    by (auto simp: hasRowNum_def fullStore_def list_ex_iff)
  have open4: "\<not> hasRowNum 4 (addPoint pointB (addPoint pointA (newStore None True)))"
    by (simp add: hasRowNum_def addPoint_def newStore_def notify_def saveToLocal_def pointA_def pointB_def)
  then have some: "\<exists>j. 1 \<le> j \<and> j \<le> 215
      \<and> \<not> hasRowNum j (addPoint pointB (addPoint pointA (newStore None True)))"
    by (intro exI [of _ 4]) simp
  have full: "getNextAvailableRow fullStore = 215"
    using taken getNextAvailableRow_smallest_free [of fullStore None True] by blast
  let ?st = "addPoint pointB (addPoint pointA (newStore None True))"
  note at_st = getNextAvailableRow_smallest_free [of ?st None True]
  have free: "\<not> hasRowNum (getNextAvailableRow ?st) ?st"
    using some at_st by blast
  have two: "getNextAvailableRow ?st = 2"
    using at_st by blast
  show ?thesis
    using full open4 free two by blast
qed

section \<open>Rounding to binary64\<close>

lemma halvings_le: "1 \<le> x \<Longrightarrow> 2 ^ halvings x \<le> x"
proof (induction x rule: halvings.induct)
  case (1 x)
  show ?case
  proof (cases "2 \<le> x")
    case True
    then have "2 ^ halvings (x / 2) \<le> x / 2" using "1.IH" by simp
    with True show ?thesis by (simp add: halvings.simps [of x])
  next
    case False
    with "1.prems" show ?thesis by (simp add: halvings.simps [of x])
  qed
qed

lemma doublings_ge: "0 < x \<Longrightarrow> x < 1 \<Longrightarrow> 1 \<le> x * 2 ^ doublings x"
proof (induction x rule: doublings.induct)
  case (1 x)
  show ?case
  proof (cases "2 * x < 1")
    case True
    then have "1 \<le> 2 * x * 2 ^ doublings (2 * x)" using "1.IH" "1.prems" by simp
    with "1.prems" show ?thesis by (simp add: doublings.simps [of x] mult.assoc mult.left_commute)
  next
    case False
    then have "doublings (2 * x) = 0" by (simp add: doublings.simps [of "2 * x"])
    with False "1.prems" show ?thesis by (simp add: doublings.simps [of x])
  qed
qed

lemma power_exponent_le: "x \<noteq> 0 \<Longrightarrow> power_int 2 (exponent x) \<le> \<bar>x\<bar>"
proof (cases "1 \<le> \<bar>x\<bar>")
  case True
  then show ?thesis by (simp add: exponent_def halvings_le)
next
  case False
  assume "x \<noteq> 0"
  with False have x: "0 < \<bar>x\<bar>" "\<bar>x\<bar> < 1" by simp_all
  have "1 \<le> \<bar>x\<bar> * 2 ^ doublings \<bar>x\<bar>" using x by (rule doublings_ge)
  then have "1 / 2 ^ doublings \<bar>x\<bar> \<le> \<bar>x\<bar>" by (simp add: field_simps)
  with False show ?thesis by (simp add: exponent_def power_int_minus_divide)
qed

lemma halvings_less: "0 \<le> x \<Longrightarrow> x < 2 * 2 ^ halvings x"
proof (induction x rule: halvings.induct)
  case (1 x)
  show ?case
  proof (cases "2 \<le> x")
    case True
    then have "x / 2 < 2 * 2 ^ halvings (x / 2)" using "1.IH" by simp
    with True show ?thesis by (simp add: halvings.simps [of x])
  next
    case False
    then show ?thesis by (simp add: halvings.simps [of x])
  qed
qed

lemma doublings_less: "0 < x \<Longrightarrow> x < 1 \<Longrightarrow> x * 2 ^ doublings x < 2"
proof (induction x rule: doublings.induct)
  case (1 x)
  show ?case
  proof (cases "2 * x < 1")
    case True
    then have "2 * x * 2 ^ doublings (2 * x) < 2" using "1.IH" "1.prems" by simp
    with "1.prems" show ?thesis by (simp add: doublings.simps [of x] mult.assoc mult.left_commute)
  next
    case False
    then have "doublings (2 * x) = 0" by (simp add: doublings.simps [of "2 * x"])
    with False "1.prems" show ?thesis by (simp add: doublings.simps [of x])
  qed
qed

lemma less_power_exponent: "x \<noteq> 0 \<Longrightarrow> \<bar>x\<bar> < power_int 2 (exponent x + 1)"
proof (cases "1 \<le> \<bar>x\<bar>")
  case True
  have "\<bar>x\<bar> < 2 * 2 ^ halvings \<bar>x\<bar>" by (rule halvings_less) simp
  with True show ?thesis by (simp add: exponent_def power_int_add)
next
  case False
  assume "x \<noteq> 0"
  with False have x: "0 < \<bar>x\<bar>" "\<bar>x\<bar> < 1" by simp_all
  have "\<bar>x\<bar> * 2 ^ doublings \<bar>x\<bar> < 2" using x by (rule doublings_less)
  then have "\<bar>x\<bar> < 2 / 2 ^ doublings \<bar>x\<bar>" by (simp add: field_simps)
  moreover have "power_int (2::real) (1 - int (doublings \<bar>x\<bar>)) = 2 / 2 ^ doublings \<bar>x\<bar>"
    by (simp add: power_int_diff)
  ultimately show ?thesis using False by (simp add: exponent_def)
qed

lemma ulp_pos: "0 < ulp x"
  by (simp add: ulp_def)

lemma ulp_le: "x \<noteq> 0 \<Longrightarrow> ulp x / 2 \<le> \<bar>x\<bar> / 2 ^ 53 + 1 / 2 ^ 1075"
proof (cases "- 1022 \<le> exponent x")
  case True
  assume x: "x \<noteq> 0"
  have "ulp x = power_int 2 (exponent x) / 2 ^ 52"
    using True by (simp add: ulp_def max_def power_int_diff)
  also have "\<dots> \<le> \<bar>x\<bar> / 2 ^ 52"
    using power_exponent_le [OF x] by (simp add: divide_right_mono)
  finally have "ulp x / 2 \<le> \<bar>x\<bar> / 2 ^ 53" by simp
  then show ?thesis by (simp add: add_increasing2)
next
  case False
  then have "ulp x = 1 / 2 ^ 1074"
    by (simp add: ulp_def max_def power_int_minus_divide)
  then have "ulp x / 2 = 1 / 2 ^ 1075" by simp
  then show ?thesis by simp
qed

lemma roundTiesToEven_near: "\<bar>of_int (roundTiesToEven y) - y\<bar> \<le> 1 / 2"
proof -
  define n where "n = \<lfloor>y\<rfloor>"
  define d where "d = y - of_int n"
  have d: "0 \<le> d" "d < 1" unfolding d_def n_def by linarith+
  have y: "y = of_int n + d" by (simp add: d_def)
  have r: "roundTiesToEven y =
      (if d < 1 / 2 then n else if 1 / 2 < d then n + 1 else if even n then n else n + 1)"
    unfolding roundTiesToEven_def Let_def d_def n_def ..
  have "\<bar>of_int (roundTiesToEven y) - (of_int n + d)\<bar> \<le> 1 / 2"
    unfolding r using d by (simp add: abs_if)
  then show ?thesis by (simp only: y [symmetric])
qed

lemma round64_error: "\<bar>round64 x - x\<bar> \<le> \<bar>x\<bar> / 2 ^ 53 + 1 / 2 ^ 1075"
proof (cases "x = 0")
  case True
  then show ?thesis by (simp add: round64_def)
next
  case False
  let ?q = "ulp x"
  have q: "0 < ?q" by (rule ulp_pos)
  have "round64 x - x = ?q * (of_int (roundTiesToEven (x / ?q)) - x / ?q)"
    using False q by (simp add: round64_def field_simps)
  then have "\<bar>round64 x - x\<bar> = ?q * \<bar>of_int (roundTiesToEven (x / ?q)) - x / ?q\<bar>"
    using q by (simp add: abs_mult)
  also have "\<dots> \<le> ?q * (1 / 2)"
    using q roundTiesToEven_near [of "x / ?q"] by (intro mult_left_mono) simp_all
  also have "\<dots> \<le> \<bar>x\<bar> / 2 ^ 53 + 1 / 2 ^ 1075"
    using ulp_le [OF False] by simp
  finally show ?thesis .
qed

lemmas round64_eval = round64_def ulp_def exponent_def halvings.simps doublings.simps
  roundTiesToEven_def Let_def

lemma round64_near:
  assumes "\<bar>x\<bar> \<le> M"
  shows "\<bar>round64 x - x\<bar> \<le> M * (12 / 10 ^ 17) + 1 / 10 ^ 30"
proof -
  have u: "(1::real) / 2 ^ 53 \<le> 12 / 10 ^ 17" by simp
  have eta: "(1::real) / 2 ^ 1075 \<le> 1 / 10 ^ 30" by simp
  have "\<bar>round64 x - x\<bar> \<le> \<bar>x\<bar> * (1 / 2 ^ 53) + 1 / 2 ^ 1075"
    using round64_error [of x] by simp
  also have "\<bar>x\<bar> * (1 / 2 ^ 53) \<le> M * (12 / 10 ^ 17)"
    using assms u by (intro mult_mono) simp_all
  finally show ?thesis using eta by linarith
qed

lemma round64_bound:
  assumes "\<bar>x\<bar> \<le> M" "\<bar>round64 x - x\<bar> \<le> e"
  shows "\<bar>round64 x\<bar> \<le> M + e"
  using assms by linarith

lemma divide_by_scale:
  assumes "1 / 10 \<le> (d::real)"
  shows "\<bar>x / d\<bar> \<le> 10 * \<bar>x\<bar>"
proof -
  have d: "0 < d" using assms by linarith
  have "\<bar>x\<bar> \<le> 10 * \<bar>x\<bar> * d"
  proof -
    have "\<bar>x\<bar> * 1 \<le> \<bar>x\<bar> * (10 * d)"
      using assms by (intro mult_left_mono) simp_all
    then show ?thesis by (simp add: mult.assoc)
  qed
  then have "\<bar>x\<bar> / d \<le> 10 * \<bar>x\<bar>"
    using d by (simp add: pos_divide_le_eq)
  with d show ?thesis by (simp add: abs_divide)
qed

lemma divide_by_scale_le:
  assumes "1 / 10 \<le> (d::real)" "\<bar>x\<bar> \<le> e"
  shows "\<bar>x / d\<bar> \<le> 10 * e"
  using divide_by_scale [OF assms(1), of x] assms(2) by linarith

lemma divide_scaled:
  assumes d: "1 / 10 \<le> (d::real)" and y: "\<bar>y\<bar> \<le> c * d + e" and e: "0 \<le> e"
  shows "\<bar>y / d\<bar> \<le> c + 10 * e"
proof -
  have d0: "0 < d" using d by linarith
  have "\<bar>y\<bar> / d \<le> (c * d + e) / d"
    using y d0 by (simp add: divide_right_mono)
  also have "\<dots> = c + e / d"
    using d0 by (simp add: field_simps)
  also have "e / d \<le> 10 * e"
    using divide_by_scale_le [OF d, of e e] e d0 by simp
  finally show ?thesis using d0 by (simp add: abs_divide)
qed

lemma regroup: "(k * n + b) * c + d = k * c * n + (b * c + d)" for k n b c d :: real
  by (simp add: algebra_simps)

lemma pivot_drift:
  fixes P off s ns :: real
  assumes s: "1 / 10 \<le> s" and ns: "1 / 10 \<le> ns" "ns \<le> 6"
    and P: "\<bar>P\<bar> \<le> 5 * 10 ^ 7" and off: "\<bar>off\<bar> \<le> 5 * 10 ^ 7"
  shows "\<bar>(P - minus64 P (times64 (divide64 (minus64 P off) s) ns)) / ns - (P - off) / s\<bar>
           \<le> 1 / 10 ^ 6"
proof -
  define a where "a = P - off"
  define a' where "a' = round64 a"
  define m where "m = a' / s"
  define m' where "m' = round64 m"
  define t where "t = m' * ns"
  define t' where "t' = round64 t"
  define p where "p = P - t'"
  define p' where "p' = round64 p"
  have s0: "s \<noteq> 0" and ns0: "ns \<noteq> 0" and nsp: "0 < ns" using s ns by linarith+
  have new: "minus64 P (times64 (divide64 (minus64 P off) s) ns) = p'"
    by (simp add: minus64_def times64_def divide64_def a_def a'_def m_def m'_def t_def t'_def
        p_def p'_def)
  have P': "\<bar>P\<bar> \<le> 50000000" and off': "\<bar>off\<bar> \<le> 50000000"
    using P off by simp_all
  have a: "\<bar>a\<bar> \<le> 100000000" using P' off' by (simp add: a_def)
  have ea: "\<bar>a' - a\<bar> \<le> 13 / 1000000000"
    using round64_near [OF a] by (simp add: a'_def)
  have a': "\<bar>a'\<bar> \<le> 100000001" using a ea by linarith
  have m: "\<bar>m\<bar> \<le> 1000000010"
    unfolding m_def by (rule order_trans [OF divide_by_scale_le [OF s a']]) simp
  have em: "\<bar>m' - m\<bar> \<le> 13 / 100000000"
    using round64_near [OF m] by (simp add: m'_def)
  have m': "\<bar>m'\<bar> \<le> 1000000011" using m em by linarith
  have t: "\<bar>t\<bar> \<le> 1000000011 * ns"
  proof -
    have "\<bar>m'\<bar> * ns \<le> 1000000011 * ns"
      using m' nsp by (intro mult_right_mono) simp_all
    then show ?thesis using nsp by (simp add: t_def abs_mult)
  qed
  have "\<bar>t' - t\<bar> \<le> 1000000011 * ns * (12 / 10 ^ 17) + 1 / 10 ^ 30"
    unfolding t'_def by (rule round64_near [OF t])
  then have et: "\<bar>t' - t\<bar> \<le> 1000000011 * (12 / 10 ^ 17) * ns + 1 / 10 ^ 30"
    by (simp only: mult.assoc mult.commute [of ns])
  have et6: "\<bar>t' - t\<bar> \<le> 1 / 1000000"
  proof -
    have "1000000011 * (12 / 10 ^ 17) * ns \<le> 1000000011 * (12 / 10 ^ 17) * 6"
      using ns(2) by (intro mult_left_mono) simp_all
    with et show ?thesis by simp
  qed
  have Pns: "\<bar>P\<bar> \<le> 500000000 * ns"
    using P' ns(1) by linarith
  have p: "\<bar>p\<bar> \<le> 1500000011 * ns + 1 / 1000000"
    using Pns t et6 unfolding p_def by linarith
  have eq: "(1500000011 * ns + 1 / 1000000) * (12 / 10 ^ 17) + 1 / 10 ^ 30
      = 1500000011 * (12 / 10 ^ 17) * ns + (1 / 1000000 * (12 / 10 ^ 17) + 1 / 10 ^ 30)"
    by (rule regroup)
  have "\<bar>p' - p\<bar> \<le> (1500000011 * ns + 1 / 1000000) * (12 / 10 ^ 17) + 1 / 10 ^ 30"
    unfolding p'_def by (rule round64_near [OF p])
  then have ep: "\<bar>p' - p\<bar> \<le> 1500000011 * (12 / 10 ^ 17) * ns
      + (1 / 1000000 * (12 / 10 ^ 17) + 1 / 10 ^ 30)"
    by (simp only: eq)
  have split: "(P - p') / ns - (P - off) / s
      = (p - p') / ns + (t' - t) / ns + (m' - m) + (a' - a) / s"
    using s0 ns0 by (simp add: p_def t_def m_def a_def field_simps)
  have ep': "\<bar>p - p'\<bar> \<le> 1500000011 * (12 / 10 ^ 17) * ns
      + (1 / 1000000 * (12 / 10 ^ 17) + 1 / 10 ^ 30)"
    using ep by (simp add: abs_minus_commute)
  have d1: "\<bar>(p - p') / ns\<bar> \<le> 19 / 100000000"
    by (rule order_trans [OF divide_scaled [OF ns(1) ep']]) simp_all
  have d2: "\<bar>(t' - t) / ns\<bar> \<le> 13 / 100000000"
    by (rule order_trans [OF divide_scaled [OF ns(1) et]]) simp_all
  have d3: "\<bar>(a' - a) / s\<bar> \<le> 13 / 100000000"
    by (rule order_trans [OF divide_by_scale_le [OF s ea]]) simp
  have "\<bar>(P - p') / ns - (P - off) / s\<bar>
      \<le> \<bar>(p - p') / ns\<bar> + \<bar>(t' - t) / ns\<bar> + \<bar>m' - m\<bar> + \<bar>(a' - a) / s\<bar>"
    unfolding split by linarith
  also have "\<dots> \<le> 1 / 1000000"
    using d1 d2 d3 em by linarith
  finally show ?thesis by (simp add: new)
qed

section \<open>Zooming\<close>

lemma state_setOffset_setScale:
  "state (setOffset x y (setScale s st)) =
     (state st)\<lparr>scale := max (1/10) (min 6 s), offsetX := x, offsetY := y\<rparr>"
  by (simp add: setOffset_def setScale_def notify_def)

lemma round64_tenth: "round64 (1 / 10) = 3602879701896397 / 36028797018963968"
  by (simp add: round64_eval)

lemma tenth_bounds: "1 / 10 \<le> round64 (1 / 10)" "round64 (1 / 10) \<le> 6"
  by (simp_all add: round64_tenth)

lemma clamp64_range:
  "1 / 10 \<le> max (round64 (1 / 10)) (min 6 x) \<and> max (round64 (1 / 10)) (min 6 x) \<le> 6"
  using tenth_bounds by (auto simp: max_def min_def)

lemma setScale_clamp64:
  "max (1 / 10) (min 6 (max (round64 (1 / 10)) (min 6 x))) = max (round64 (1 / 10)) (min 6 x)"
  using clamp64_range [of x] by linarith

lemma zoom_state:
  "state (snd (zoom factor (cm, st))) =
     (state st)\<lparr>scale := max (round64 (1 / 10)) (min 6 (round64 (scale (state st) * factor))),
       offsetX := minus64 (fst (containerCenter cm))
         (times64 (divide64 (minus64 (fst (containerCenter cm)) (offsetX (state st))) (scale (state st)))
            (max (round64 (1 / 10)) (min 6 (round64 (scale (state st) * factor))))),
       offsetY := minus64 (snd (containerCenter cm))
         (times64 (divide64 (minus64 (snd (containerCenter cm)) (offsetY (state st))) (scale (state st)))
            (max (round64 (1 / 10)) (min 6 (round64 (scale (state st) * factor)))))\<rparr>"
  by (simp add: zoom_def Let_def state_setOffset_setScale setScale_clamp64 mousePointTo_def
      times64_def [of "scale (state st)" factor])

lemma wheel_state:
  "state (snd (wheel (Some pos) deltaY (cm, st))) =
     (state st)\<lparr>scale := max (round64 (1 / 10)) (min 6 (round64 (scale (state st)
          * (if deltaY < 0 then round64 (112 / 100) else round64 (89 / 100))))),
       offsetX := minus64 (fst pos)
         (times64 (divide64 (minus64 (fst pos) (offsetX (state st))) (scale (state st)))
            (max (round64 (1 / 10)) (min 6 (round64 (scale (state st)
               * (if deltaY < 0 then round64 (112 / 100) else round64 (89 / 100))))))),
       offsetY := minus64 (snd pos)
         (times64 (divide64 (minus64 (snd pos) (offsetY (state st))) (scale (state st)))
            (max (round64 (1 / 10)) (min 6 (round64 (scale (state st)
               * (if deltaY < 0 then round64 (112 / 100) else round64 (89 / 100)))))))\<rparr>"
  by (simp add: wheel_def Let_def state_setOffset_setScale setScale_clamp64 mousePointTo_def
      times64_def [of "scale (state st)"])

text \<open>
  C1, as amended. From a viewport whose scale lies in [0.1, 6] and whose offsets are at
  most 5 * 10^7 in magnitude, with a pivot whose coordinates are at most 5 * 10^7 in
  magnitude,
  both \<open>zoom\<close> (pivot: the centre of the container) and the wheel handler (pivot: the
  pointer position, factor 1.12 or 0.89) set the scale to the rounded product of the old
  scale and the factor, clamped to [0.1, 6], and set the offset so that the image-space
  points \<open>(P - oldOffset) / oldScale\<close> and \<open>(P - newOffset) / newScale\<close> differ by at
  most 10^-6 in each coordinate. From scale 1 and offset (0, 0), a zoom by 2 about the
  pivot (100, 100), the centre of a container of 200 by 200, gives scale 2 and offset
  (-100, -100) exactly.
\<close>

theorem zoom_pivot_within_tolerance:
  "1 / 10 \<le> scale (state st) \<and> scale (state st) \<le> 6
   \<and> \<bar>offsetX (state st)\<bar> \<le> 5 * 10 ^ 7 \<and> \<bar>offsetY (state st)\<bar> \<le> 5 * 10 ^ 7
   \<and> \<bar>fst (containerCenter cm)\<bar> \<le> 5 * 10 ^ 7 \<and> \<bar>snd (containerCenter cm)\<bar> \<le> 5 * 10 ^ 7
   \<and> \<bar>fst pos\<bar> \<le> 5 * 10 ^ 7 \<and> \<bar>snd pos\<bar> \<le> 5 * 10 ^ 7 \<longrightarrow>
     scale (state (snd (zoom factor (cm, st))))
       = max (round64 (1 / 10)) (min 6 (round64 (scale (state st) * factor)))
     \<and> \<bar>(fst (containerCenter cm) - offsetX (state (snd (zoom factor (cm, st)))))
            / scale (state (snd (zoom factor (cm, st))))
          - (fst (containerCenter cm) - offsetX (state st)) / scale (state st)\<bar> \<le> 1 / 10 ^ 6
     \<and> \<bar>(snd (containerCenter cm) - offsetY (state (snd (zoom factor (cm, st)))))
            / scale (state (snd (zoom factor (cm, st))))
          - (snd (containerCenter cm) - offsetY (state st)) / scale (state st)\<bar> \<le> 1 / 10 ^ 6
     \<and> scale (state (snd (wheel (Some pos) deltaY (cm, st))))
       = max (round64 (1 / 10)) (min 6 (round64 (scale (state st)
           * (if deltaY < 0 then round64 (112 / 100) else round64 (89 / 100)))))
     \<and> \<bar>(fst pos - offsetX (state (snd (wheel (Some pos) deltaY (cm, st)))))
            / scale (state (snd (wheel (Some pos) deltaY (cm, st))))
          - (fst pos - offsetX (state st)) / scale (state st)\<bar> \<le> 1 / 10 ^ 6
     \<and> \<bar>(snd pos - offsetY (state (snd (wheel (Some pos) deltaY (cm, st)))))
            / scale (state (snd (wheel (Some pos) deltaY (cm, st))))
          - (snd pos - offsetY (state st)) / scale (state st)\<bar> \<le> 1 / 10 ^ 6
     \<and> (scale (state st) = 1 \<and> offsetX (state st) = 0 \<and> offsetY (state st) = 0
          \<and> clientWidth cm = 200 \<and> clientHeight cm = 200 \<longrightarrow>
            scale (state (snd (zoom 2 (cm, st)))) = 2
            \<and> offsetX (state (snd (zoom 2 (cm, st)))) = - 100
            \<and> offsetY (state (snd (zoom 2 (cm, st)))) = - 100)"
proof (rule impI)
  assume h: "1 / 10 \<le> scale (state st) \<and> scale (state st) \<le> 6
   \<and> \<bar>offsetX (state st)\<bar> \<le> 5 * 10 ^ 7 \<and> \<bar>offsetY (state st)\<bar> \<le> 5 * 10 ^ 7
   \<and> \<bar>fst (containerCenter cm)\<bar> \<le> 5 * 10 ^ 7 \<and> \<bar>snd (containerCenter cm)\<bar> \<le> 5 * 10 ^ 7
   \<and> \<bar>fst pos\<bar> \<le> 5 * 10 ^ 7 \<and> \<bar>snd pos\<bar> \<le> 5 * 10 ^ 7"
  then have s: "1 / 10 \<le> scale (state st)"
    and ox: "\<bar>offsetX (state st)\<bar> \<le> 5 * 10 ^ 7" and oy: "\<bar>offsetY (state st)\<bar> \<le> 5 * 10 ^ 7"
    and cx: "\<bar>fst (containerCenter cm)\<bar> \<le> 5 * 10 ^ 7" and cy: "\<bar>snd (containerCenter cm)\<bar> \<le> 5 * 10 ^ 7"
    and px: "\<bar>fst pos\<bar> \<le> 5 * 10 ^ 7" and py: "\<bar>snd pos\<bar> \<le> 5 * 10 ^ 7"
    by simp_all
  let ?zs = "max (round64 (1 / 10)) (min 6 (round64 (scale (state st) * factor)))"
  let ?ws = "max (round64 (1 / 10)) (min 6 (round64 (scale (state st)
           * (if deltaY < 0 then round64 (112 / 100) else round64 (89 / 100)))))"
  have zs: "1 / 10 \<le> ?zs" "?zs \<le> 6" using clamp64_range by simp_all
  have ws: "1 / 10 \<le> ?ws" "?ws \<le> 6" using clamp64_range by simp_all
  have z1: "scale (state (snd (zoom factor (cm, st)))) = ?zs"
    by (simp add: zoom_state)
  have z2: "\<bar>(fst (containerCenter cm) - offsetX (state (snd (zoom factor (cm, st)))))
            / scale (state (snd (zoom factor (cm, st))))
          - (fst (containerCenter cm) - offsetX (state st)) / scale (state st)\<bar> \<le> 1 / 10 ^ 6"
    using pivot_drift [OF s zs cx ox] by (simp add: zoom_state)
  have z3: "\<bar>(snd (containerCenter cm) - offsetY (state (snd (zoom factor (cm, st)))))
            / scale (state (snd (zoom factor (cm, st))))
          - (snd (containerCenter cm) - offsetY (state st)) / scale (state st)\<bar> \<le> 1 / 10 ^ 6"
    using pivot_drift [OF s zs cy oy] by (simp add: zoom_state)
  have w1: "scale (state (snd (wheel (Some pos) deltaY (cm, st)))) = ?ws"
    by (simp add: wheel_state)
  have w2: "\<bar>(fst pos - offsetX (state (snd (wheel (Some pos) deltaY (cm, st)))))
            / scale (state (snd (wheel (Some pos) deltaY (cm, st))))
          - (fst pos - offsetX (state st)) / scale (state st)\<bar> \<le> 1 / 10 ^ 6"
    using pivot_drift [OF s ws px ox] by (simp add: wheel_state)
  have w3: "\<bar>(snd pos - offsetY (state (snd (wheel (Some pos) deltaY (cm, st)))))
            / scale (state (snd (wheel (Some pos) deltaY (cm, st))))
          - (snd pos - offsetY (state st)) / scale (state st)\<bar> \<le> 1 / 10 ^ 6"
    using pivot_drift [OF s ws py oy] by (simp add: wheel_state)
  have ex: "scale (state (snd (zoom 2 (cm, st)))) = 2
            \<and> offsetX (state (snd (zoom 2 (cm, st)))) = - 100
            \<and> offsetY (state (snd (zoom 2 (cm, st)))) = - 100"
    if e: "scale (state st) = 1 \<and> offsetX (state st) = 0 \<and> offsetY (state st) = 0
          \<and> clientWidth cm = 200 \<and> clientHeight cm = 200"
  proof -
    have c: "containerCenter cm = (100, 100)"
      using e by (simp add: containerCenter_def divide64_def round64_eval)
    have two: "round64 2 = 2"
      by (simp add: round64_eval)
    have off: "minus64 100 (times64 (divide64 (minus64 100 0) 1) 2) = - 100"
      by (simp add: minus64_def times64_def divide64_def round64_eval)
    show ?thesis
      using e off by (simp add: zoom_state c two round64_tenth max_def min_def)
  qed
  have exi: "scale (state st) = 1 \<and> offsetX (state st) = 0 \<and> offsetY (state st) = 0
          \<and> clientWidth cm = 200 \<and> clientHeight cm = 200 \<longrightarrow>
            scale (state (snd (zoom 2 (cm, st)))) = 2
            \<and> offsetX (state (snd (zoom 2 (cm, st)))) = - 100
            \<and> offsetY (state (snd (zoom 2 (cm, st)))) = - 100"
    by (rule impI) (rule ex)
  show "scale (state (snd (zoom factor (cm, st)))) = ?zs
     \<and> \<bar>(fst (containerCenter cm) - offsetX (state (snd (zoom factor (cm, st)))))
            / scale (state (snd (zoom factor (cm, st))))
          - (fst (containerCenter cm) - offsetX (state st)) / scale (state st)\<bar> \<le> 1 / 10 ^ 6
     \<and> \<bar>(snd (containerCenter cm) - offsetY (state (snd (zoom factor (cm, st)))))
            / scale (state (snd (zoom factor (cm, st))))
          - (snd (containerCenter cm) - offsetY (state st)) / scale (state st)\<bar> \<le> 1 / 10 ^ 6
     \<and> scale (state (snd (wheel (Some pos) deltaY (cm, st)))) = ?ws
     \<and> \<bar>(fst pos - offsetX (state (snd (wheel (Some pos) deltaY (cm, st)))))
            / scale (state (snd (wheel (Some pos) deltaY (cm, st))))
          - (fst pos - offsetX (state st)) / scale (state st)\<bar> \<le> 1 / 10 ^ 6
     \<and> \<bar>(snd pos - offsetY (state (snd (wheel (Some pos) deltaY (cm, st)))))
            / scale (state (snd (wheel (Some pos) deltaY (cm, st))))
          - (snd pos - offsetY (state st)) / scale (state st)\<bar> \<le> 1 / 10 ^ 6
     \<and> (scale (state st) = 1 \<and> offsetX (state st) = 0 \<and> offsetY (state st) = 0
          \<and> clientWidth cm = 200 \<and> clientHeight cm = 200 \<longrightarrow>
            scale (state (snd (zoom 2 (cm, st)))) = 2
            \<and> offsetX (state (snd (zoom 2 (cm, st)))) = - 100
            \<and> offsetY (state (snd (zoom 2 (cm, st)))) = - 100)"
    by (intro conjI) (rule z1 z2 z3 w1 w2 w3 exi)+
qed

lemma center_square: "containerCenter squareCanvas = (100, 100)"
  by (simp add: containerCenter_def squareCanvas_def divide64_def round64_eval)

lemma center_wide: "containerCenter wideCanvas = (333, 333)"
  by (simp add: containerCenter_def wideCanvas_def divide64_def round64_eval)

theorem zoom_pivot_within_tolerance_witness:
  "scale (state (snd (zoom 2 (squareCanvas, newStore None True)))) = 2
   \<and> offsetX (state (snd (zoom 2 (squareCanvas, newStore None True)))) = - 100
   \<and> offsetY (state (snd (zoom 2 (squareCanvas, newStore None True)))) = - 100
   \<and> \<bar>(100 - offsetX (state (snd (zoom 2 (squareCanvas, newStore None True)))))
          / scale (state (snd (zoom 2 (squareCanvas, newStore None True)))) - (100 - 0) / 1\<bar>
       \<le> 1 / 10 ^ 6
   \<and> scale (state (snd (wheel (Some (30, 40)) (- 1) (squareCanvas, newStore None True))))
       = 1261007895663739 / 1125899906842624
   \<and> \<bar>(30 - offsetX (state (snd (wheel (Some (30, 40)) (- 1) (squareCanvas, newStore None True)))))
          / scale (state (snd (wheel (Some (30, 40)) (- 1) (squareCanvas, newStore None True))))
        - (30 - 0) / 1\<bar> \<le> 1 / 10 ^ 6"
proof -
  let ?st = "newStore None True :: Store"
  have s: "scale (state ?st) = 1" "offsetX (state ?st) = 0" "offsetY (state ?st) = 0"
    by (simp_all add: newStore_def initialState_def)
  have c: "clientWidth squareCanvas = 200" "clientHeight squareCanvas = 200"
    by (simp_all add: squareCanvas_def)
  have hyp: "1 / 10 \<le> scale (state ?st) \<and> scale (state ?st) \<le> 6
   \<and> \<bar>offsetX (state ?st)\<bar> \<le> 5 * 10 ^ 7 \<and> \<bar>offsetY (state ?st)\<bar> \<le> 5 * 10 ^ 7
   \<and> \<bar>fst (containerCenter squareCanvas)\<bar> \<le> 5 * 10 ^ 7 \<and> \<bar>snd (containerCenter squareCanvas)\<bar> \<le> 5 * 10 ^ 7
   \<and> \<bar>fst (30::real, 40::real)\<bar> \<le> 5 * 10 ^ 7 \<and> \<bar>snd (30::real, 40::real)\<bar> \<le> 5 * 10 ^ 7"
    by (simp add: s center_square)
  note all = zoom_pivot_within_tolerance [of ?st squareCanvas "(30, 40)" 2 "- 1", THEN mp, OF hyp]
  note zx = all [THEN conjunct2, THEN conjunct1]
  note ws = all [THEN conjunct2, THEN conjunct2, THEN conjunct2, THEN conjunct1]
  note wx = all [THEN conjunct2, THEN conjunct2, THEN conjunct2, THEN conjunct2, THEN conjunct1]
  note ex = all [THEN conjunct2, THEN conjunct2, THEN conjunct2, THEN conjunct2, THEN conjunct2,
      THEN conjunct2]
  have example: "scale (state (snd (zoom 2 (squareCanvas, ?st)))) = 2
      \<and> offsetX (state (snd (zoom 2 (squareCanvas, ?st)))) = - 100
      \<and> offsetY (state (snd (zoom 2 (squareCanvas, ?st)))) = - 100"
    using ex s c by blast
  have zoom_drift: "\<bar>(100 - offsetX (state (snd (zoom 2 (squareCanvas, ?st)))))
          / scale (state (snd (zoom 2 (squareCanvas, ?st)))) - (100 - 0) / 1\<bar> \<le> 1 / 10 ^ 6"
    using zx by (simp only: center_square s fst_conv)
  have factor: "round64 (112 / 100) = 1261007895663739 / 1125899906842624"
    by (simp add: round64_eval)
  have again: "round64 (1 * (1261007895663739 / 1125899906842624))
      = 1261007895663739 / 1125899906842624"
    by (simp add: round64_eval)
  have clamp: "max (3602879701896397 / 36028797018963968)
      (min 6 (1261007895663739 / 1125899906842624)) = (1261007895663739 / 1125899906842624 :: real)"
    by simp
  have "(- 1 :: real) < 0" by simp
  then have wheel_scale: "scale (state (snd (wheel (Some (30, 40)) (- 1) (squareCanvas, ?st))))
      = 1261007895663739 / 1125899906842624"
    using ws by (simp only: s if_True factor again round64_tenth clamp)
  have wheel_drift: "\<bar>(30 - offsetX (state (snd (wheel (Some (30, 40)) (- 1) (squareCanvas, ?st)))))
          / scale (state (snd (wheel (Some (30, 40)) (- 1) (squareCanvas, ?st))))
        - (30 - 0) / 1\<bar> \<le> 1 / 10 ^ 6"
    using wx by (simp only: s fst_conv)
  show ?thesis
    using example zoom_drift wheel_scale wheel_drift by blast
qed

text \<open>
  C1 as stated fails for a large offset. At scale 5 and offset x = -10^12, the button
  zoom by 1.25 about the centre x = 333 of a container 666 wide sets the scale to 6 and
  the offset to -2457600000136397 / 2048, and the image-space point under the pivot moves
  by 1 / 61440, more than 10^-6.
\<close>

theorem zoom_pivot_counterexample:
  "scale (state farStore) = 5
   \<and> scale (state (snd (zoom (5 / 4) (wideCanvas, farStore)))) = 6
   \<and> offsetX (state (snd (zoom (5 / 4) (wideCanvas, farStore)))) = - (2457600000136397 / 2048)
   \<and> 1 / 10 ^ 6 <
       \<bar>(fst (containerCenter wideCanvas) - offsetX (state (snd (zoom (5 / 4) (wideCanvas, farStore)))))
            / scale (state (snd (zoom (5 / 4) (wideCanvas, farStore))))
          - (fst (containerCenter wideCanvas) - offsetX (state farStore)) / scale (state farStore)\<bar>"
proof -
  have s: "scale (state farStore) = 5" "offsetX (state farStore) = - 1000000000000"
    by (simp_all add: farStore_def)
  have v: "round64 (25 / 4) = 25 / 4"
    by (simp add: round64_eval)
  have ns: "max (round64 (1 / 10)) (min 6 (round64 (25 / 4))) = 6"
    by (simp add: v round64_tenth max_def min_def)
  have a: "minus64 333 (- 1000000000000) = 1000000000333"
    by (simp add: minus64_def round64_eval)
  have m: "divide64 1000000000333 5 = 6553600002182349 / 32768"
    by (simp add: divide64_def round64_eval)
  have t: "times64 (6553600002182349 / 32768) 6 = 2457600000818381 / 2048"
    by (simp add: times64_def round64_eval)
  have p: "minus64 333 (2457600000818381 / 2048) = - (2457600000136397 / 2048)"
    by (simp add: minus64_def round64_eval)
  have sc: "scale (state (snd (zoom (5 / 4) (wideCanvas, farStore)))) = 6"
    by (simp add: zoom_state s ns)
  have off: "offsetX (state (snd (zoom (5 / 4) (wideCanvas, farStore)))) = - (2457600000136397 / 2048)"
    by (simp add: zoom_state s ns center_wide a m t p)
  show ?thesis
    by (simp add: s sc off center_wide)
qed

section \<open>Fitting the view\<close>

lemma fit_clamp: "max (1/10) (min 6 (max (3/10) (min 4 (s::real)))) = max (3/10) (min 4 s)"
  by (simp add: max_def min_def)

lemma fitToContent_state:
  "backgroundImage cm = Some (iw, ih) \<Longrightarrow>
   state (snd (fitToContent (cm, st))) =
     (let c = max (3/10) (min 4 (min (clientWidth cm / (iw * (72/100))) (clientHeight cm / (ih * (48/100))) * (92/100)))
      in (state st)\<lparr>scale := c,
            offsetX := clientWidth cm / 2 - (iw * (15/100) + iw * (72/100) / 2) * c,
            offsetY := clientHeight cm / 2 - (ih * (28/100) + ih * (48/100) / 2) * c\<rparr>)"
  by (simp add: fitToContent_def Let_def state_setOffset_setScale fit_clamp)


text \<open>
  C6. With a background image of positive width and height, \<open>fitToContent\<close> sets the
  scale to min(containerWidth / (0.72 * imageWidth), containerHeight / (0.48 * imageHeight))
  * 0.92 clamped to [0.3, 4], and the offset so that the centre of the region with left
  margin 15%, top margin 28%, width 72% and height 48% of the image is shown at the
  centre of the container. Without a background image it changes nothing.
\<close>

theorem fitToContent_frames_region:
  "(backgroundImage cm = Some (imageWidth, imageHeight) \<and> 0 < imageWidth \<and> 0 < imageHeight \<longrightarrow>
      scale (state (snd (fitToContent (cm, st)))) =
        max (3/10) (min 4
          (min (clientWidth cm / (72/100 * imageWidth)) (clientHeight cm / (48/100 * imageHeight))
             * (92/100)))
      \<and> 3/10 \<le> scale (state (snd (fitToContent (cm, st))))
      \<and> scale (state (snd (fitToContent (cm, st)))) \<le> 4
      \<and> (15/100 * imageWidth + 72/100 * imageWidth / 2) * scale (state (snd (fitToContent (cm, st))))
           + offsetX (state (snd (fitToContent (cm, st)))) = clientWidth cm / 2
      \<and> (28/100 * imageHeight + 48/100 * imageHeight / 2) * scale (state (snd (fitToContent (cm, st))))
           + offsetY (state (snd (fitToContent (cm, st)))) = clientHeight cm / 2)
   \<and> (backgroundImage cm = None \<longrightarrow> fitToContent (cm, st) = (cm, st))"
proof -
  have none: "backgroundImage cm = None \<longrightarrow> fitToContent (cm, st) = (cm, st)"
    by (simp add: fitToContent_def)
  have some: "scale (state (snd (fitToContent (cm, st)))) =
        max (3/10) (min 4
          (min (clientWidth cm / (72/100 * imageWidth)) (clientHeight cm / (48/100 * imageHeight))
             * (92/100)))
      \<and> 3/10 \<le> scale (state (snd (fitToContent (cm, st))))
      \<and> scale (state (snd (fitToContent (cm, st)))) \<le> 4
      \<and> (15/100 * imageWidth + 72/100 * imageWidth / 2) * scale (state (snd (fitToContent (cm, st))))
           + offsetX (state (snd (fitToContent (cm, st)))) = clientWidth cm / 2
      \<and> (28/100 * imageHeight + 48/100 * imageHeight / 2) * scale (state (snd (fitToContent (cm, st))))
           + offsetY (state (snd (fitToContent (cm, st)))) = clientHeight cm / 2"
    if img: "backgroundImage cm = Some (imageWidth, imageHeight)"
  proof -
    define c where "c = max (3/10) (min 4 (min (clientWidth cm / (imageWidth * (72/100)))
        (clientHeight cm / (imageHeight * (48/100))) * (92/100)))"
    have st': "state (snd (fitToContent (cm, st))) =
        (state st)\<lparr>scale := c,
            offsetX := clientWidth cm / 2 - (imageWidth * (15/100) + imageWidth * (72/100) / 2) * c,
            offsetY := clientHeight cm / 2 - (imageHeight * (28/100) + imageHeight * (48/100) / 2) * c\<rparr>"
      unfolding c_def using fitToContent_state [OF img, of st] by (simp add: Let_def)
    have eq: "c = max (3/10) (min 4
          (min (clientWidth cm / (72/100 * imageWidth)) (clientHeight cm / (48/100 * imageHeight))
             * (92/100)))"
      unfolding c_def by (simp add: mult.commute)
    have bounds: "3/10 \<le> c" "c \<le> 4"
      unfolding c_def by simp_all
    have cx: "(15/100 * imageWidth + 72/100 * imageWidth / 2) * c
        + (clientWidth cm / 2 - (imageWidth * (15/100) + imageWidth * (72/100) / 2) * c) = clientWidth cm / 2"
      by (simp add: algebra_simps)
    have cy: "(28/100 * imageHeight + 48/100 * imageHeight / 2) * c
        + (clientHeight cm / 2 - (imageHeight * (28/100) + imageHeight * (48/100) / 2) * c) = clientHeight cm / 2"
      by (simp add: algebra_simps)
    show ?thesis
      unfolding st' using eq bounds cx cy by simp
  qed
  show ?thesis
    using none some by blast
qed

theorem fitToContent_frames_region_witness:
  "backgroundImage imageCanvas = Some (1000, 800)
   \<and> scale (state (snd (fitToContent (imageCanvas, newStore None True)))) = 46 / 45
   \<and> (15/100 * 1000 + 72/100 * 1000 / 2) * (46 / 45)
        + offsetX (state (snd (fitToContent (imageCanvas, newStore None True)))) = 400
   \<and> fitToContent (squareCanvas, newStore None True) = (squareCanvas, newStore None True)"
proof -
  have img: "backgroundImage imageCanvas = Some (1000, 800)" "backgroundImage squareCanvas = None"
    by (simp_all add: imageCanvas_def squareCanvas_def)
  have dims: "clientWidth imageCanvas = 800" "clientHeight imageCanvas = 600"
    by (simp_all add: imageCanvas_def)
  show ?thesis
    using img fitToContent_frames_region [of imageCanvas 1000 800 "newStore None True"]
      fitToContent_frames_region [of squareCanvas 0 0 "newStore None True"]
    by (simp add: dims)
qed

section \<open>Marker sizes\<close>

lemma updateTransform_shape:
  "pointShapes cm i = Some shape \<Longrightarrow> getPointById i st = Some p \<Longrightarrow>
   pointShapes (updateTransform cm st) i =
     Some (shape\<lparr>radius := size_p p / scale (state st) / 2,
                 strokeWidth := max 1 (2 / scale (state st)),
                 fontSize := max 8 (11 / scale (state st))\<rparr>)"
  by (simp add: updateTransform_def updateAllPointSizes_def Let_def)

lemma layerScale_updateTransform: "layerScale (updateTransform cm st) = scale (state st)"
  by (simp add: updateTransform_def updateAllPointSizes_def)


text \<open>
  C4, as amended. At a positive scale the marker's radius is half of
  \<open>point.size / scale\<close>, so its diameter on screen (the radius doubled, times the scale
  of the layer it lives in) is \<open>point.size\<close> at every zoom level. The stroke width is
  \<open>2 / scale\<close> up to scale 2 and 1 from there on; the label's font size is
  \<open>11 / scale\<close> up to scale 1.375 and 8 from there on. \<open>updateTransform\<close> gives a
  rendered marker whose point is in the store the same three values as
  \<open>createPointShape\<close>.
\<close>

theorem marker_size_under_zoom:
  "0 < scale s \<longrightarrow>
     radius (pointShape s p) = size_p p / scale s / 2
     \<and> 2 * radius (pointShape s p) * scale s = size_p p
     \<and> (scale s \<le> 2 \<longrightarrow> strokeWidth (pointShape s p) = 2 / scale s)
     \<and> (2 \<le> scale s \<longrightarrow> strokeWidth (pointShape s p) = 1)
     \<and> (scale s \<le> 11 / 8 \<longrightarrow> fontSize (pointShape s p) = 11 / scale s)
     \<and> (11 / 8 \<le> scale s \<longrightarrow> fontSize (pointShape s p) = 8)
     \<and> (s = state st \<and> pointShapes cm i = Some shape \<and> getPointById i st = Some p \<longrightarrow>
          map_option radius (pointShapes (updateTransform cm st) i) = Some (radius (pointShape s p))
          \<and> map_option strokeWidth (pointShapes (updateTransform cm st) i)
              = Some (strokeWidth (pointShape s p))
          \<and> map_option fontSize (pointShapes (updateTransform cm st) i)
              = Some (fontSize (pointShape s p))
          \<and> 2 * radius (pointShape s p) * layerScale (updateTransform cm st) = size_p p)"
proof (rule impI)
  assume pos: "0 < scale s"
  have r: "radius (pointShape s p) = size_p p / scale s / 2"
    by (simp add: pointShape_def Let_def)
  have d: "2 * radius (pointShape s p) * scale s = size_p p"
    using pos by (simp add: r)
  have sw: "strokeWidth (pointShape s p) = max 1 (2 / scale s)"
    by (simp add: pointShape_def Let_def)
  have fs: "fontSize (pointShape s p) = max 8 (11 / scale s)"
    by (simp add: pointShape_def Let_def)
  have sw1: "scale s \<le> 2 \<longrightarrow> strokeWidth (pointShape s p) = 2 / scale s"
  proof
    assume "scale s \<le> 2"
    then have "1 \<le> 2 / scale s" using pos by (simp add: pos_le_divide_eq)
    then show "strokeWidth (pointShape s p) = 2 / scale s" by (simp add: sw max_absorb2)
  qed
  have sw2: "2 \<le> scale s \<longrightarrow> strokeWidth (pointShape s p) = 1"
  proof
    assume "2 \<le> scale s"
    then have "2 / scale s \<le> 1" using pos by (simp add: pos_divide_le_eq)
    then show "strokeWidth (pointShape s p) = 1" by (simp add: sw max_absorb1)
  qed
  have fs1: "scale s \<le> 11 / 8 \<longrightarrow> fontSize (pointShape s p) = 11 / scale s"
  proof
    assume "scale s \<le> 11 / 8"
    then have "8 \<le> 11 / scale s" using pos by (simp add: pos_le_divide_eq)
    then show "fontSize (pointShape s p) = 11 / scale s" by (simp add: fs max_absorb2)
  qed
  have fs2: "11 / 8 \<le> scale s \<longrightarrow> fontSize (pointShape s p) = 8"
  proof
    assume "11 / 8 \<le> scale s"
    then have "11 / scale s \<le> 8" using pos by (simp add: pos_divide_le_eq)
    then show "fontSize (pointShape s p) = 8" by (simp add: fs max_absorb1)
  qed
  have upd: "map_option radius (pointShapes (updateTransform cm st) i) = Some (radius (pointShape s p))
          \<and> map_option strokeWidth (pointShapes (updateTransform cm st) i)
              = Some (strokeWidth (pointShape s p))
          \<and> map_option fontSize (pointShapes (updateTransform cm st) i)
              = Some (fontSize (pointShape s p))
          \<and> 2 * radius (pointShape s p) * layerScale (updateTransform cm st) = size_p p"
    if h: "s = state st \<and> pointShapes cm i = Some shape \<and> getPointById i st = Some p"
  proof -
    from h have "pointShapes (updateTransform cm st) i =
       Some (shape\<lparr>radius := size_p p / scale s / 2,
                 strokeWidth := max 1 (2 / scale s),
                 fontSize := max 8 (11 / scale s)\<rparr>)"
      by (simp add: updateTransform_shape)
    moreover from h have "layerScale (updateTransform cm st) = scale s"
      by (simp add: layerScale_updateTransform)
    ultimately show ?thesis
      using d by (simp add: r sw fs)
  qed
  show "radius (pointShape s p) = size_p p / scale s / 2
     \<and> 2 * radius (pointShape s p) * scale s = size_p p
     \<and> (scale s \<le> 2 \<longrightarrow> strokeWidth (pointShape s p) = 2 / scale s)
     \<and> (2 \<le> scale s \<longrightarrow> strokeWidth (pointShape s p) = 1)
     \<and> (scale s \<le> 11 / 8 \<longrightarrow> fontSize (pointShape s p) = 11 / scale s)
     \<and> (11 / 8 \<le> scale s \<longrightarrow> fontSize (pointShape s p) = 8)
     \<and> (s = state st \<and> pointShapes cm i = Some shape \<and> getPointById i st = Some p \<longrightarrow>
          map_option radius (pointShapes (updateTransform cm st) i) = Some (radius (pointShape s p))
          \<and> map_option strokeWidth (pointShapes (updateTransform cm st) i)
              = Some (strokeWidth (pointShape s p))
          \<and> map_option fontSize (pointShapes (updateTransform cm st) i)
              = Some (fontSize (pointShape s p))
          \<and> 2 * radius (pointShape s p) * layerScale (updateTransform cm st) = size_p p)"
    using r d sw1 sw2 fs1 fs2 upd by blast
qed


theorem marker_size_under_zoom_witness:
  "0 < scale zoomedState
   \<and> radius (pointShape zoomedState pointA) = 3
   \<and> strokeWidth (pointShape zoomedState pointA) = 1
   \<and> fontSize (pointShape zoomedState pointA) = 8
   \<and> strokeWidth (pointShape initialState pointA) = 2
   \<and> fontSize (pointShape initialState pointA) = 11"
proof -
  have s: "scale zoomedState = 4" "scale initialState = 1" "size_p pointA = 24"
    by (simp_all add: zoomedState_def initialState_def pointA_def)
  show ?thesis
    using marker_size_under_zoom [of zoomedState pointA]
      marker_size_under_zoom [of initialState pointA]
    by (simp add: s)
qed

text \<open>
  C4 as stated fails at scale 4 for a point of size 24: the radius is 3, not 24 / 4, the
  stroke width is 1, not a quarter of the 2 it has at scale 1, and the font size is 8, not
  a quarter of 11.
\<close>

theorem marker_radius_counterexample:
  "radius (pointShape zoomedState pointA) \<noteq> size_p pointA / scale zoomedState
   \<and> strokeWidth (pointShape zoomedState pointA) \<noteq> strokeWidth (pointShape initialState pointA) / scale zoomedState
   \<and> fontSize (pointShape zoomedState pointA) \<noteq> fontSize (pointShape initialState pointA) / scale zoomedState"
  by (simp add: pointShape_def zoomedState_def initialState_def pointA_def Let_def)

section \<open>Importing points\<close>

lemma importItem_append: "importItem fresh acc ki = acc @ importItem fresh [] ki"
  by (simp add: importItem_def split: option.splits)

lemma foldl_importItem:
  "foldl (importItem fresh) acc kis = acc @ concat (map (importItem fresh []) kis)"
proof (induction kis arbitrary: acc)
  case Nil
  then show ?case by simp
next
  case (Cons ki kis)
  have "foldl (importItem fresh) acc (ki # kis) = foldl (importItem fresh) (importItem fresh acc ki) kis"
    by simp
  also have "\<dots> = importItem fresh acc ki @ concat (map (importItem fresh []) kis)"
    by (rule Cons.IH)
  also have "\<dots> = (acc @ importItem fresh [] ki) @ concat (map (importItem fresh []) kis)"
    by (simp only: importItem_append [of fresh acc ki])
  finally show ?case by simp
qed

lemma points_importPoints:
  "points (importPoints fresh data st) =
     sort_key rowNum (concat (map (importItem fresh []) (enumerate 0 data)))"
  by (simp add: importPoints_def foldl_importItem)

lemma importItem_cases:
  "importItem fresh [] (k, item) =
     (if validRow item
      then [\<lparr> id_p = importId (the (rowNum_j item)) (fresh k), x_p = x_j item, y_p = y_j item,
              size_p = orDefault (size_j item) 24, rowNum = the (rowNum_j item) \<rparr>]
      else [])"
  by (simp add: importItem_def validRow_def split: option.splits)

lemma length_imported:
  "length (concat (map (importItem fresh []) (enumerate n data))) = length (filter validRow data)"
  by (induction data arbitrary: n) (simp_all add: importItem_cases)

lemma set_imported:
  "set (concat (map (importItem fresh []) (enumerate 0 data))) =
     {p. \<exists>k < length data. p \<in> set (importItem fresh [] (k, data ! k))}"
proof (intro set_eqI iffI)
  fix p
  assume "p \<in> set (concat (map (importItem fresh []) (enumerate 0 data)))"
  then obtain k item where "(k, item) \<in> set (enumerate 0 data)" "p \<in> set (importItem fresh [] (k, item))"
    by auto
  then have "k < length data \<and> p \<in> set (importItem fresh [] (k, data ! k))"
    by (simp add: in_set_enumerate_eq)
  then show "p \<in> {p. \<exists>k < length data. p \<in> set (importItem fresh [] (k, data ! k))}"
    by blast
next
  fix p
  assume "p \<in> {p. \<exists>k < length data. p \<in> set (importItem fresh [] (k, data ! k))}"
  then obtain k where k: "k < length data" "p \<in> set (importItem fresh [] (k, data ! k))"
    by blast
  from k(1) have "(k, data ! k) \<in> set (enumerate 0 data)"
    by (simp add: in_set_enumerate_eq)
  with k(2) show "p \<in> set (concat (map (importItem fresh []) (enumerate 0 data)))"
    by auto
qed

lemma count_imported:
  "length (filter (\<lambda>p. rowNum p = r) (concat (map (importItem fresh []) (enumerate n data)))) =
     (if 1 \<le> r \<and> r \<le> 215 then length (filter (\<lambda>item. rowNum_j item = Some r) data) else 0)"
  by (induction data arbitrary: n) (auto simp: importItem_def split: option.splits)

lemma imported_ignores_ids:
  "concat (map (importItem fresh []) (enumerate n (map (\<lambda>item. item\<lparr>id_j := newId item\<rparr>) data))) =
   concat (map (importItem fresh []) (enumerate n data))"
  by (induction data arbitrary: n) (auto simp: importItem_def split: option.splits)

text \<open>
  C3. \<open>importPoints\<close> leaves a list sorted by row that has as many points as the input
  has items with a row in 1..215. Every point comes from such an item: same row, \<open>x\<close>
  and \<open>y\<close> copied, size 24 when the item has none (or 0), and the id built from the row,
  the clock and the random suffix of that round. Every such item yields its point. The
  ids the caller supplies play no part, and neither do the points the store held before.
\<close>

theorem importPoints_replaces:
  "sorted (map rowNum (points (importPoints fresh data st)))
   \<and> length (points (importPoints fresh data st)) = length (filter validRow data)
   \<and> (\<forall>p \<in> set (points (importPoints fresh data st)).
        \<exists>k < length data.
          rowNum_j (data ! k) = Some (rowNum p) \<and> 1 \<le> rowNum p \<and> rowNum p \<le> 215
          \<and> id_p p = importId (rowNum p) (fresh k)
          \<and> x_p p = x_j (data ! k) \<and> y_p p = y_j (data ! k)
          \<and> size_p p = (case size_j (data ! k) of None \<Rightarrow> 24 | Some s \<Rightarrow> if s = 0 then 24 else s))
   \<and> (\<forall>k < length data. \<forall>r. rowNum_j (data ! k) = Some r \<and> 1 \<le> r \<and> r \<le> 215 \<longrightarrow>
        \<lparr> id_p = importId r (fresh k), x_p = x_j (data ! k), y_p = y_j (data ! k),
          size_p = (case size_j (data ! k) of None \<Rightarrow> 24 | Some s \<Rightarrow> if s = 0 then 24 else s),
          rowNum = r \<rparr> \<in> set (points (importPoints fresh data st)))
   \<and> importPoints fresh (map (\<lambda>item. item\<lparr>id_j := newId item\<rparr>) data) st = importPoints fresh data st
   \<and> points (importPoints fresh data st) = points (importPoints fresh data st0)"
proof -
  let ?pts = "points (importPoints fresh data st)"
  let ?size = "\<lambda>k. case size_j (data ! k) of None \<Rightarrow> 24 | Some s \<Rightarrow> if s = 0 then 24 else s"
  have set_pts: "set ?pts = {p. \<exists>k < length data. p \<in> set (importItem fresh [] (k, data ! k))}"
    by (simp only: points_importPoints set_sort set_imported)
  have c1: "sorted (map rowNum ?pts)"
    by (simp add: points_importPoints)
  have c2: "length ?pts = length (filter validRow data)"
    by (simp add: points_importPoints length_imported)
  have c3: "\<forall>p \<in> set ?pts. \<exists>k < length data.
          rowNum_j (data ! k) = Some (rowNum p) \<and> 1 \<le> rowNum p \<and> rowNum p \<le> 215
          \<and> id_p p = importId (rowNum p) (fresh k)
          \<and> x_p p = x_j (data ! k) \<and> y_p p = y_j (data ! k)
          \<and> size_p p = ?size k"
  proof
    fix p assume "p \<in> set ?pts"
    then obtain k where k: "k < length data" "p \<in> set (importItem fresh [] (k, data ! k))"
      unfolding set_pts by blast
    from k(2) have "rowNum_j (data ! k) = Some (rowNum p) \<and> 1 \<le> rowNum p \<and> rowNum p \<le> 215
          \<and> id_p p = importId (rowNum p) (fresh k)
          \<and> x_p p = x_j (data ! k) \<and> y_p p = y_j (data ! k)
          \<and> size_p p = ?size k"
      by (auto simp: importItem_def orDefault_def split: option.splits if_splits)
    with k(1) show "\<exists>k < length data.
          rowNum_j (data ! k) = Some (rowNum p) \<and> 1 \<le> rowNum p \<and> rowNum p \<le> 215
          \<and> id_p p = importId (rowNum p) (fresh k)
          \<and> x_p p = x_j (data ! k) \<and> y_p p = y_j (data ! k)
          \<and> size_p p = ?size k"
      by blast
  qed
  have c4: "\<forall>k < length data. \<forall>r. rowNum_j (data ! k) = Some r \<and> 1 \<le> r \<and> r \<le> 215 \<longrightarrow>
        \<lparr> id_p = importId r (fresh k), x_p = x_j (data ! k), y_p = y_j (data ! k),
          size_p = ?size k, rowNum = r \<rparr> \<in> set ?pts"
  proof (intro allI impI)
    fix k r assume k: "k < length data" and r: "rowNum_j (data ! k) = Some r \<and> 1 \<le> r \<and> r \<le> 215"
    from r have "\<lparr> id_p = importId r (fresh k), x_p = x_j (data ! k), y_p = y_j (data ! k),
          size_p = ?size k, rowNum = r \<rparr> \<in> set (importItem fresh [] (k, data ! k))"
      by (simp add: importItem_def orDefault_def)
    with k show "\<lparr> id_p = importId r (fresh k), x_p = x_j (data ! k), y_p = y_j (data ! k),
          size_p = ?size k, rowNum = r \<rparr> \<in> set ?pts"
      unfolding set_pts by blast
  qed
  have c5: "importPoints fresh (map (\<lambda>item. item\<lparr>id_j := newId item\<rparr>) data) st = importPoints fresh data st"
    by (simp add: importPoints_def foldl_importItem imported_ignores_ids)
  have c6: "?pts = points (importPoints fresh data st0)"
    by (simp add: points_importPoints)
  show ?thesis
    by (intro conjI) (rule c1 c2 c3 c4 c5 c6)+
qed

lemma sample_ids:
  "importId 7 (sampleFresh 0) = ''c_7_1000_k3j9x0a1z''"
  "importId 2 (sampleFresh (Suc 0)) = ''c_2_1001_k3j9x0a1z''"
  "importId 7 (sampleFresh (Suc (Suc (Suc 0)))) = ''c_7_1003_k3j9x0a1z''"
  by code_simp+

lemma sample_points:
  "points (importPoints sampleFresh sampleItems st) =
     [\<lparr> id_p = ''c_2_1001_k3j9x0a1z'', x_p = 30, y_p = 40, size_p = 16, rowNum = 2 \<rparr>,
      \<lparr> id_p = ''c_7_1000_k3j9x0a1z'', x_p = 10, y_p = 20, size_p = 24, rowNum = 7 \<rparr>,
      \<lparr> id_p = ''c_7_1003_k3j9x0a1z'', x_p = 70, y_p = 80, size_p = 12, rowNum = 7 \<rparr>]"
  by (simp add: importPoints_def sampleItems_def importItem_def orDefault_def enumerate_eq_zip
      upt_rec sample_ids)

theorem importPoints_replaces_witness:
  "length (points (importPoints sampleFresh sampleItems (addPoint pointA (newStore None True)))) = 3
   \<and> length (filter validRow sampleItems) = 3
   \<and> map rowNum (points (importPoints sampleFresh sampleItems (addPoint pointA (newStore None True))))
       = [2, 7, 7]
   \<and> map size_p (points (importPoints sampleFresh sampleItems (addPoint pointA (newStore None True))))
       = [16, 24, 12]
   \<and> map id_p (points (importPoints sampleFresh sampleItems (addPoint pointA (newStore None True))))
       = [''c_2_1001_k3j9x0a1z'', ''c_7_1000_k3j9x0a1z'', ''c_7_1003_k3j9x0a1z'']"
proof -
  have valid: "length (filter validRow sampleItems) = 3"
    by (simp add: sampleItems_def validRow_def)
  note len = importPoints_replaces
    [of sampleFresh sampleItems "addPoint pointA (newStore None True)", THEN conjunct2, THEN conjunct1]
  have "length (points (importPoints sampleFresh sampleItems (addPoint pointA (newStore None True)))) = 3"
    using len valid by simp
  then show ?thesis
    by (simp add: valid sample_points)
qed

lemma count_map_filter: "count (mset (map f xs)) r = length (filter (\<lambda>x. f x = r) xs)"
  by (induction xs) simp_all

lemma two_matches:
  assumes "i < j" "j < length xs" "P (xs ! i)" "P (xs ! j)"
  shows "2 \<le> length (filter P xs)"
proof -
  have split: "xs = take j xs @ xs ! j # drop (Suc j) xs"
    using assms(2) by (rule id_take_nth_drop)
  have "i < length (take j xs)" "take j xs ! i = xs ! i"
    using assms(1,2) by simp_all
  then have "xs ! i \<in> set (take j xs)"
    by (metis nth_mem)
  with assms(3) have "filter P (take j xs) \<noteq> []"
    by (auto simp: filter_empty_conv)
  then have one: "1 \<le> length (filter P (take j xs))"
    by (cases "filter P (take j xs)") simp_all
  have "length (filter P xs) = length (filter P (take j xs @ xs ! j # drop (Suc j) xs))"
    by (rule arg_cong [OF split])
  also have "\<dots> = length (filter P (take j xs)) + 1 + length (filter P (drop (Suc j) xs))"
    using assms(4) by simp
  finally show ?thesis using one by simp
qed

text \<open>
  C10. For a row \<open>r\<close> in 1..215, the imported list has as many points on row \<open>r\<close> as the
  input has items on row \<open>r\<close>. So two input items on the same row give at least two
  points on it: the row numbers of the result are not distinct.
\<close>

theorem importPoints_keeps_duplicate_rows:
  "1 \<le> r \<and> r \<le> 215 \<longrightarrow>
     count (mset (map rowNum (points (importPoints fresh data st)))) r
       = length (filter (\<lambda>item. rowNum_j item = Some r) data)
     \<and> (\<forall>i j. i < j \<and> j < length data \<and> rowNum_j (data ! i) = Some r \<and> rowNum_j (data ! j) = Some r
          \<longrightarrow> 2 \<le> count (mset (map rowNum (points (importPoints fresh data st)))) r
              \<and> \<not> distinct (map rowNum (points (importPoints fresh data st))))"
proof (rule impI)
  assume r: "1 \<le> r \<and> r \<le> 215"
  let ?rows = "map rowNum (points (importPoints fresh data st))"
  let ?same = "filter (\<lambda>item. rowNum_j item = Some r) data"
  have "count (mset ?rows) r = count (mset (map rowNum (concat (map (importItem fresh []) (enumerate 0 data))))) r"
    by (simp add: points_importPoints)
  also have "\<dots> = length (filter (\<lambda>p. rowNum p = r) (concat (map (importItem fresh []) (enumerate 0 data))))"
    by (rule count_map_filter)
  also have "\<dots> = length ?same"
    using r by (simp add: count_imported)
  finally have cnt: "count (mset ?rows) r = length ?same" .
  have dup: "2 \<le> count (mset ?rows) r \<and> \<not> distinct ?rows"
    if h: "i < j \<and> j < length data \<and> rowNum_j (data ! i) = Some r \<and> rowNum_j (data ! j) = Some r"
    for i j
  proof -
    from h have "2 \<le> length ?same"
      by (intro two_matches [of i j]) simp_all
    then have two: "2 \<le> count (mset ?rows) r"
      by (simp only: cnt)
    have "\<not> distinct ?rows"
    proof
      assume "distinct ?rows"
      then have "count (mset ?rows) r \<le> 1"
        by (simp add: distinct_count_atmost_1)
      with two show False by simp
    qed
    with two show ?thesis by simp
  qed
  show "count (mset ?rows) r = length ?same
     \<and> (\<forall>i j. i < j \<and> j < length data \<and> rowNum_j (data ! i) = Some r \<and> rowNum_j (data ! j) = Some r
          \<longrightarrow> 2 \<le> count (mset ?rows) r \<and> \<not> distinct ?rows)"
    using cnt dup by blast
qed

theorem importPoints_keeps_duplicate_rows_witness:
  "count (mset (map rowNum (points (importPoints sampleFresh sampleItems (newStore None True))))) 7 = 2
   \<and> rowNum_j (sampleItems ! 0) = Some 7 \<and> rowNum_j (sampleItems ! 3) = Some 7
   \<and> \<not> distinct (map rowNum (points (importPoints sampleFresh sampleItems (newStore None True))))"
proof -
  have same: "length (filter (\<lambda>item. rowNum_j item = Some 7) sampleItems) = 2"
    by (simp add: sampleItems_def)
  have rows: "rowNum_j (sampleItems ! 0) = Some 7" "rowNum_j (sampleItems ! 3) = Some 7"
    "(3::nat) < length sampleItems"
    by (simp_all add: sampleItems_def)
  note dup = importPoints_keeps_duplicate_rows [of 7 sampleFresh sampleItems "newStore None True"]
  have cnt: "count (mset (map rowNum (points (importPoints sampleFresh sampleItems (newStore None True))))) 7 = 2"
    using dup same by simp
  have "\<not> distinct (map rowNum (points (importPoints sampleFresh sampleItems (newStore None True))))"
  proof -
    have "(1::int) \<le> 7 \<and> (7::int) \<le> 215" by simp
    from dup [THEN mp, OF this, THEN conjunct2, THEN spec, of 0, THEN spec, of 3] rows
    show ?thesis by simp
  qed
  with cnt rows show ?thesis by simp
qed

section \<open>Export followed by import\<close>

lemma normalize_exported:
  "rowNum_j item = None \<Longrightarrow> rowNum_j (normalizeItem item) = row_j item"
  "x_j (normalizeItem item) = x_j item"
  "y_j (normalizeItem item) = y_j item"
  "size_j (normalizeItem item) = size_j item"
  by (simp_all add: normalizeItem_def)

lemma exportFullData_nth:
  "exportFullData st = map (\<lambda>p. exportFullData (st\<lparr>points := [p]\<rparr>) ! 0) (points st)"
  by (simp add: exportFullData_def getPlateData_def)

lemma exported_fields:
  "rowNum_j (exportFullData (st\<lparr>points := [p]\<rparr>) ! 0) = None"
  "row_j (exportFullData (st\<lparr>points := [p]\<rparr>) ! 0) = Some (rowNum p)"
  "x_j (exportFullData (st\<lparr>points := [p]\<rparr>) ! 0) = x_p p"
  "y_j (exportFullData (st\<lparr>points := [p]\<rparr>) ! 0) = y_p p"
  "size_j (exportFullData (st\<lparr>points := [p]\<rparr>) ! 0) = Some (size_p p)"
  by (simp_all add: exportFullData_def Let_def)

lemma reimport_one:
  assumes "rowNum_j (f p) = None" "row_j (f p) = Some (rowNum p)" "x_j (f p) = x_p p"
    "y_j (f p) = y_p p" "size_j (f p) = Some (size_p p)"
    "1 \<le> rowNum p" "rowNum p \<le> 215" "size_p p \<noteq> 0"
  shows "map pointFields (importItem fresh [] (k, normalizeItem (f p))) = [pointFields p]"
  using assms by (simp add: importItem_def normalize_exported orDefault_def pointFields_def)

lemma reimport_list:
  assumes "\<And>p. rowNum_j (f p) = None \<and> row_j (f p) = Some (rowNum p) \<and> x_j (f p) = x_p p
      \<and> y_j (f p) = y_p p \<and> size_j (f p) = Some (size_p p)"
  shows "list_all (\<lambda>p. 1 \<le> rowNum p \<and> rowNum p \<le> 215 \<and> size_p p \<noteq> 0) ps \<Longrightarrow>
    map pointFields (concat (map (importItem fresh []) (enumerate n (map (\<lambda>p. normalizeItem (f p)) ps))))
      = map pointFields ps"
proof (induction ps arbitrary: n)
  case Nil
  then show ?case by simp
next
  case (Cons p ps)
  from Cons.prems have p: "1 \<le> rowNum p" "rowNum p \<le> 215" "size_p p \<noteq> 0"
    and rest: "list_all (\<lambda>p. 1 \<le> rowNum p \<and> rowNum p \<le> 215 \<and> size_p p \<noteq> 0) ps"
    by simp_all
  have one: "map pointFields (importItem fresh [] (n, normalizeItem (f p))) = [pointFields p]"
    using assms [of p] p by (intro reimport_one) simp_all
  show ?case
    using one Cons.IH [OF rest, of "Suc n"] by simp
qed

text \<open>
  C5, as amended. When every point has a row in 1..215 and a size other than 0,
  importing the normalised records of \<open>exportFullData\<close> gives points with the same
  multiset of (rowNum, x, y, size), whatever ids the import generates and whatever the
  importing store held.
\<close>

theorem export_import_roundtrip:
  "rowsInRange (points st) \<and> list_all (\<lambda>p. size_p p \<noteq> 0) (points st) \<longrightarrow>
     image_mset pointFields
       (mset (points (importPoints fresh (map normalizeItem (exportFullData st)) st')))
     = image_mset pointFields (mset (points st))"
proof (rule impI)
  assume h: "rowsInRange (points st) \<and> list_all (\<lambda>p. size_p p \<noteq> 0) (points st)"
  let ?f = "\<lambda>p. exportFullData (st\<lparr>points := [p]\<rparr>) ! 0"
  let ?imported = "concat (map (importItem fresh [])
      (enumerate 0 (map (\<lambda>p. normalizeItem (?f p)) (points st))))"
  from h have ok: "list_all (\<lambda>p. 1 \<le> rowNum p \<and> rowNum p \<le> 215 \<and> size_p p \<noteq> 0) (points st)"
    by (simp add: rowsInRange_def list_all_iff)
  have data: "map normalizeItem (exportFullData st) = map (\<lambda>p. normalizeItem (?f p)) (points st)"
    by (subst exportFullData_nth) simp
  have fields: "map pointFields ?imported = map pointFields (points st)"
    using ok by (intro reimport_list) (simp add: exported_fields)
  have "image_mset pointFields (mset (points (importPoints fresh (map normalizeItem (exportFullData st)) st')))
      = mset (map pointFields ?imported)"
    by (simp add: points_importPoints data)
  also have "\<dots> = image_mset pointFields (mset (points st))"
    by (simp only: fields mset_map)
  finally show "image_mset pointFields
       (mset (points (importPoints fresh (map normalizeItem (exportFullData st)) st')))
     = image_mset pointFields (mset (points st))" .
qed

lemma roundtrip_AB:
  "points (addPoint pointB (addPoint pointA (newStore None True))) = [pointA, pointB]"
  by (simp add: addPoint_def newStore_def notify_def saveToLocal_def pointA_def pointB_def)

theorem export_import_roundtrip_witness:
  "rowsInRange (points (addPoint pointB (addPoint pointA (newStore None True))))
   \<and> list_all (\<lambda>p. size_p p \<noteq> 0) (points (addPoint pointB (addPoint pointA (newStore None True))))
   \<and> image_mset pointFields
       (mset (points (importPoints sampleFresh
          (map normalizeItem (exportFullData (addPoint pointB (addPoint pointA (newStore None True)))))
          (newStore None True))))
     = {#(1, 100, 50, 24), (5, 300, 120, 24)#}"
proof -
  have h: "rowsInRange [pointA, pointB]" "list_all (\<lambda>p. size_p p \<noteq> 0) [pointA, pointB]"
    by (simp_all add: rowsInRange_def pointA_def pointB_def)
  have f: "pointFields pointA = (1, 100, 50, 24)" "pointFields pointB = (5, 300, 120, 24)"
    by (simp_all add: pointFields_def pointA_def pointB_def)
  show ?thesis
    using h export_import_roundtrip
      [of "addPoint pointB (addPoint pointA (newStore None True))" sampleFresh "newStore None True"]
    by (simp add: roundtrip_AB f)
qed

text \<open>
  C5 as stated fails for a store holding one point of size 0 on row 3: its export carries
  \<open>size: 0\<close>, which the import replaces by 24.
\<close>

theorem export_import_roundtrip_counterexample:
  "image_mset pointFields
     (mset (points (importPoints sampleFresh (map normalizeItem (exportFullData zeroSizeStore))
        zeroSizeStore)))
   \<noteq> image_mset pointFields (mset (points zeroSizeStore))"
proof -
  have pts: "points zeroSizeStore = [pointZ]"
    by (simp add: zeroSizeStore_def addPoint_def newStore_def notify_def saveToLocal_def)
  have "map pointFields (points (importPoints sampleFresh (map normalizeItem (exportFullData zeroSizeStore))
        zeroSizeStore)) = [(3, 40, 60, 24)]"
    by (simp add: importPoints_def exportFullData_def pts normalizeItem_def importItem_def
        orDefault_def pointFields_def pointZ_def Let_def)
  moreover have "map pointFields (points zeroSizeStore) = [(3, 40, 60, 0)]"
    by (simp add: pts pointFields_def pointZ_def)
  ultimately have "mset (map pointFields (points (importPoints sampleFresh
        (map normalizeItem (exportFullData zeroSizeStore)) zeroSizeStore)))
      \<noteq> mset (map pointFields (points zeroSizeStore))"
    by simp
  then show ?thesis by simp
qed

section \<open>The row range\<close>

lemma rowsInRange_set: "rowsInRange ps \<longleftrightarrow> (\<forall>p \<in> set ps. 1 \<le> rowNum p \<and> rowNum p \<le> 215)"
  by (simp add: rowsInRange_def list_all_iff)

lemma rowsInRange_subset: "set qs \<subseteq> set ps \<Longrightarrow> rowsInRange ps \<Longrightarrow> rowsInRange qs"
  by (auto simp: rowsInRange_set)

lemma stored_notify_save:
  "rowsInRange (points st) \<Longrightarrow> (case localPoints st of None \<Rightarrow> True | Some ps \<Rightarrow> rowsInRange ps) \<Longrightarrow>
   storedRowsInRange (notify (saveToLocal st))"
  by (simp add: storedRowsInRange_def notify_def saveToLocal_def)

lemma addPoint_inv:
  assumes "storedRowsInRange st" "1 \<le> rowNum p" "rowNum p \<le> 215"
  shows "storedRowsInRange (addPoint p st)"
proof (cases "list_ex (\<lambda>q. rowNum q = rowNum p) (points st)")
  case True
  with assms(1) show ?thesis by (simp add: addPoint_def)
next
  case False
  have "rowsInRange (sort_key rowNum (points st @ [p]))"
    using assms by (simp add: rowsInRange_set storedRowsInRange_def)
  then have "storedRowsInRange
      (notify (saveToLocal (st\<lparr>points := sort_key rowNum (points st @ [p])\<rparr>)))"
    using assms(1) by (intro stored_notify_save) (simp_all add: storedRowsInRange_def)
  with False show ?thesis by (simp add: addPoint_def)
qed

lemma addPointAtPosition_inv:
  assumes "storedRowsInRange (snd w)"
  shows "storedRowsInRange (snd (addPointAtPosition x y nextRow now w))"
proof (cases "nextRow < 1 \<or> nextRow > 215 \<or> hasRowNum nextRow (snd w)")
  case True
  with assms show ?thesis by (auto simp: addPointAtPosition_def Let_def)
next
  case False
  then have "1 \<le> nextRow" "nextRow \<le> 215" by simp_all
  then have "storedRowsInRange (addPoint
      \<lparr> id_p = ''c_'' @ numberToString nextRow @ ''_'' @ numberToString (int now),
        x_p = mathRound x, y_p = mathRound y, size_p = circleSize (state (snd w)),
        rowNum = nextRow \<rparr> (snd w))"
    using assms by (intro addPoint_inv) simp_all
  with False show ?thesis by (simp add: addPointAtPosition_def Let_def)
qed

lemma removePoint_inv:
  assumes "storedRowsInRange st"
  shows "storedRowsInRange (snd (removePoint i st))"
proof (cases "findIndex (\<lambda>p. id_p p = i) (points st)")
  case None
  with assms show ?thesis by (simp add: removePoint_def)
next
  case (Some k)
  have "set (splice1 k (points st)) \<subseteq> set (points st)"
    unfolding splice1_def using set_take_subset [of k "points st"] set_drop_subset [of "Suc k" "points st"]
    by auto
  then have "rowsInRange (splice1 k (points st))"
    using assms by (auto intro: rowsInRange_subset simp: storedRowsInRange_def)
  then show ?thesis
    using Some assms
    by (simp add: removePoint_def Let_def storedRowsInRange_def notify_def saveToLocal_def)
qed

lemma clearAllPoints_inv: "storedRowsInRange st \<Longrightarrow> storedRowsInRange (clearAllPoints st)"
  by (simp add: clearAllPoints_def storedRowsInRange_def notify_def saveToLocal_def rowsInRange_def)

lemma importPoints_inv:
  assumes "storedRowsInRange st"
  shows "storedRowsInRange (importPoints fresh data st)"
proof -
  let ?new = "sort_key rowNum (foldl (importItem fresh) [] (enumerate 0 data))"
  have "set ?new = {p. \<exists>k < length data. p \<in> set (importItem fresh [] (k, data ! k))}"
    by (simp only: foldl_importItem append_Nil set_sort set_imported)
  then have "rowsInRange ?new"
    by (auto simp: rowsInRange_set importItem_def split: option.splits if_splits)
  then have "storedRowsInRange (notify (saveToLocal (st\<lparr>points := ?new\<rparr>)))"
    using assms by (intro stored_notify_save) (simp_all add: storedRowsInRange_def)
  then show ?thesis by (simp add: importPoints_def)
qed

lemma loadFromLocal_inv: "storedRowsInRange st \<Longrightarrow> storedRowsInRange (snd (loadFromLocal st))"
  by (auto simp: loadFromLocal_def storedRowsInRange_def notify_def split: option.splits)

lemma applyOp_inv: "storedRowsInRange (snd w) \<Longrightarrow> storedRowsInRange (snd (applyOp w op))"
  by (cases op)
    (simp_all add: addPointAtPosition_inv removePoint_inv clearAllPoints_inv importPoints_inv
      loadFromLocal_inv)

text \<open>
  C2, as amended. Starting from a store whose points and whose \<open>localStorage\<close> entry
  hold only rows in 1..215 (a new store with no entry is one), every sequence of
  placements through \<open>addPointAtPosition\<close>, removals, clearings, imports and restores
  leaves only rows in 1..215, in the point list and in the entry.
\<close>

theorem rows_stay_in_range:
  "storedRowsInRange st \<longrightarrow>
     rowsInRange (points (snd (foldl applyOp (cm, st) ops)))
     \<and> storedRowsInRange (snd (foldl applyOp (cm, st) ops))"
proof -
  have "storedRowsInRange (snd w) \<Longrightarrow> storedRowsInRange (snd (foldl applyOp w ops))" for w
  proof (induction ops arbitrary: w)
    case Nil
    then show ?case by simp
  next
    case (Cons op ops)
    from Cons.prems have "storedRowsInRange (snd (applyOp w op))"
      by (rule applyOp_inv)
    then show ?case using Cons.IH by simp
  qed
  from this [of "(cm, st)"] show ?thesis
    by (simp add: storedRowsInRange_def)
qed

theorem rows_stay_in_range_witness:
  "storedRowsInRange (newStore None True)
   \<and> rowsInRange (points (snd (foldl applyOp (squareCanvas, newStore None True) sampleOps)))"
proof -
  have init: "storedRowsInRange (newStore None True)"
    by (simp add: storedRowsInRange_def newStore_def rowsInRange_def)
  with rows_stay_in_range [of "newStore None True" squareCanvas sampleOps]
  show ?thesis by simp
qed

text \<open>
  C2 as stated fails: \<open>addPoint\<close> itself checks no range, so on a new store it accepts a
  point on row 216.
\<close>

theorem rows_in_range_counterexample:
  "\<not> rowsInRange (points (addPoint pointOut (newStore None True)))"
  by (simp add: rowsInRange_def addPoint_def newStore_def notify_def saveToLocal_def pointOut_def)

end
